theory Spec2Isabelle
  imports Main "HOL-Library.AList"
begin

section \<open>Python values as the builder observes them\<close>

text \<open>
  The element builder of \<^verbatim>\<open>taipy/gui/builder/_element.py\<close> never looks inside the
  values it is given. It observes a value through exactly five operations: object identity
  (\<^verbatim>\<open>v is value\<close>), the attribute \<^verbatim>\<open>__name__\<close> (\<^verbatim>\<open>hasattr\<close>, \<^verbatim>\<open>getattr\<close>),
  \<^verbatim>\<open>isinstance(value, (str, dict, Iterable))\<close>, \<^verbatim>\<open>str(value)\<close> and truthiness.
  An object supplied by the caller is therefore the record of what these five operations give.
  A string is a list of code points below 256 (the Latin-1 range of Python's \<^verbatim>\<open>str\<close>),
  one \<open>char\<close> each; \<^verbatim>\<open>str()\<close> is taken to be total.
\<close>

datatype pykind = KStr | KDict | KIterable | KOther

record pyobj =
  oid :: nat
  name_attr :: "string option"
  kind :: pykind
  str_of :: string
  truthy :: bool

text \<open>
  A value held by an element is either a reference to a caller's object or a string that
  the builder has created itself (by \<^verbatim>\<open>str()\<close> or by concatenation); such a new
  string is a new object, identical to none of the caller's.
\<close>

datatype pyval = Ref pyobj | NewStr string

fun py_is :: "pyobj \<Rightarrow> pyval \<Rightarrow> bool" where
  "py_is v (Ref w) = (oid v = oid w)"
| "py_is v (NewStr s) = False"

fun py_name :: "pyval \<Rightarrow> string option" where
  "py_name (Ref w) = name_attr w"
| "py_name (NewStr s) = None"

fun py_str :: "pyval \<Rightarrow> string" where
  "py_str (Ref w) = str_of w"
| "py_str (NewStr s) = s"

fun is_str :: "pyval \<Rightarrow> bool" where
  "is_str (Ref w) = (kind w = KStr)"
| "is_str (NewStr s) = True"

fun is_str_dict_iterable :: "pyval \<Rightarrow> bool" where
  "is_str_dict_iterable (Ref w) = (kind w \<noteq> KOther)"
| "is_str_dict_iterable (NewStr s) = True"

fun py_bool :: "pyval \<Rightarrow> bool" where
  "py_bool (Ref w) = truthy w"
| "py_bool (NewStr s) = (s \<noteq> [])"

subsection \<open>String helpers\<close>

definition newline :: char where
  "newline = CHR 0x0A"

text \<open>
  The characters \<^verbatim>\<open>str.strip()\<close> removes, those on which \<^verbatim>\<open>str.isspace\<close> holds:
  below 256 these are the codes 9 to 13, 28 to 32, 133 (U+0085) and 160 (U+00A0).
\<close>

definition py_space :: "char \<Rightarrow> bool" where
  "py_space c = (let n = (of_char c :: nat) in
     (9 \<le> n \<and> n \<le> 13) \<or> (28 \<le> n \<and> n \<le> 32) \<or> n = 133 \<or> n = 160)"

definition strip :: "string \<Rightarrow> string" where
  "strip s = rev (dropWhile py_space (rev (dropWhile py_space s)))"

text \<open>
  The class \<^verbatim>\<open>[\w\d]\<close> of a \<^verbatim>\<open>str\<close> pattern: the underscore and every character
  on which \<^verbatim>\<open>str.isalnum\<close> holds. Below 256 these are the ASCII digits and letters, the
  ordinal indicators and the micro sign (170, 186, 181), the superscript digits (178, 179,
  185), the vulgar fractions (188 to 190) and the accented letters (192 to 255 without the
  multiplication and division signs 215 and 247).
\<close>

definition word_char :: "char \<Rightarrow> bool" where
  "word_char c = (let n = (of_char c :: nat) in
     (48 \<le> n \<and> n \<le> 57) \<or> (65 \<le> n \<and> n \<le> 90) \<or> n = 95 \<or> (97 \<le> n \<and> n \<le> 122) \<or>
     n = 170 \<or> n = 178 \<or> n = 179 \<or> n = 181 \<or> n = 185 \<or> n = 186 \<or>
     (188 \<le> n \<and> n \<le> 190) \<or> (192 \<le> n \<and> n \<le> 214) \<or> (216 \<le> n \<and> n \<le> 246) \<or>
     (248 \<le> n \<and> n \<le> 255))"

fun startswith :: "string \<Rightarrow> string \<Rightarrow> bool" where
  "startswith s [] = True"
| "startswith [] (p # ps) = False"
| "startswith (c # cs) (p # ps) = (c = p \<and> startswith cs ps)"

text \<open>\<^verbatim>\<open>sub in s\<close> on strings.\<close>

fun str_in :: "string \<Rightarrow> string \<Rightarrow> bool" where
  "str_in sub [] = (sub = [])"
| "str_in sub (c # cs) = (startswith (c # cs) sub \<or> str_in sub cs)"

text \<open>\<^verbatim>\<open>sep.join(xs)\<close>.\<close>

fun join :: "string \<Rightarrow> string list \<Rightarrow> string" where
  "join sep [] = []"
| "join sep [x] = x"
| "join sep (x # y # ys) = x @ sep @ join sep (y # ys)"

section \<open>PropertyCodec: keys\<close>

text \<open>
  \<^verbatim>\<open>__RE_INDEXED_PROPERTY = re.compile(r"^(.*?)__([\w\d]+)$")\<close>, used with
  \<^verbatim>\<open>match\<close>. \<open>re_tail s\<close> matches \<^verbatim>\<open>__([\w\d]+)$\<close> at the start of \<open>s\<close>: two
  underscores, then the longest run of word characters, which must be non-empty and reach
  the end of the string or the line break that ends it (\<^verbatim>\<open>$\<close> matches there too). A
  shorter run can never be followed by \<^verbatim>\<open>$\<close>, so backtracking into the run adds nothing.
\<close>

fun re_tail :: "string \<Rightarrow> string option" where
  "re_tail (a # b # rest) =
     (if a = CHR ''_'' \<and> b = CHR ''_'' then
        (let w = takeWhile word_char rest; r = dropWhile word_char rest
         in if w \<noteq> [] \<and> (r = [] \<or> r = [newline]) then Some w else None)
      else None)"
| "re_tail s = None"

text \<open>
  The lazy group \<^verbatim>\<open>(.*?)\<close> tries the shortest prefix first and grows by one character
  at a time; \<^verbatim>\<open>.\<close> does not match a line break. \<open>pre\<close> is the text the group holds.
\<close>

fun RE_INDEXED_PROPERTY :: "string \<Rightarrow> string \<Rightarrow> (string \<times> string) option" where
  "RE_INDEXED_PROPERTY pre [] = None"
| "RE_INDEXED_PROPERTY pre (c # cs) =
     (case re_tail (c # cs) of
        Some w \<Rightarrow> Some (pre, w)
      | None \<Rightarrow> if c = newline then None else RE_INDEXED_PROPERTY (pre @ [c]) cs)"

definition parse_property_key :: "string \<Rightarrow> string" where
  "parse_property_key key =
     (case RE_INDEXED_PROPERTY [] key of
        Some (g1, g2) \<Rightarrow> g1 @ ''['' @ g2 @ '']''
      | None \<Rightarrow> key)"


text \<open>
  What it means for a key to be of the indexed form: \<open>key\<close> is \<open>p\<close>, two underscores
  and a non-empty run \<open>w\<close> of word characters (and possibly one final line break), with no
  line break in \<open>p\<close>.
\<close>

definition indexed_split :: "string \<Rightarrow> string \<Rightarrow> string \<Rightarrow> bool" where
  "indexed_split key p w \<longleftrightarrow>
     newline \<notin> set p \<and> w \<noteq> [] \<and> (\<forall>c\<in>set w. word_char c) \<and>
     (key = p @ ''__'' @ w \<or> key = p @ ''__'' @ w @ [newline])"

section \<open>PropertyCodec: values\<close>

type_synonym snapshot = "(string \<times> pyobj) list"
type_synonym code_arguments = "string option \<rightharpoonup> pyval"

text \<open>
  The loop \<^verbatim>\<open>for k, v in self.__locals.items()\<close> of \<^verbatim>\<open>_parse_property\<close>: the name of
  the first entry that is the very object \<open>value\<close> and whose name is what the call site
  wrote for \<open>key\<close>.
\<close>

fun binding_name :: "snapshot \<Rightarrow> string \<Rightarrow> pyval \<Rightarrow> code_arguments \<Rightarrow> string option" where
  "binding_name [] key value ca = None"
| "binding_name ((k, v) # rest) key value ca =
     (if py_is v value \<and>
         (case ca (Some key) of None \<Rightarrow> False | Some src \<Rightarrow> strip (py_str src) = strip k)
      then Some k
      else binding_name rest key value ca)"

definition parse_property :: "snapshot \<Rightarrow> string \<Rightarrow> pyval \<Rightarrow> code_arguments \<Rightarrow> pyval" where
  "parse_property lcls key value ca =
     (case py_name value of
        Some n \<Rightarrow> NewStr n
      | None \<Rightarrow>
         (case binding_name lcls key value ca of
            Some k \<Rightarrow> NewStr (''{'' @ k @ ''}'')
          | None \<Rightarrow> if is_str_dict_iterable value then value else NewStr (py_str value)))"


text \<open>The exceptions that the builder raises or lets through.\<close>

datatype py_error =
  KeyError | AttributeError | RuntimeError | SyntaxError | ValueError | TypeError
  | RecursionError | ScopeError

type_synonym props = "(string \<times> pyval) list"

text \<open>
  \<^verbatim>\<open>_parse_properties\<close>, the loop over the keys: read the stored value (a missing key is
  a \<^verbatim>\<open>KeyError\<close>), move an indexed key to its normalised form, store the normalised value.
  A dict is an association list in insertion order: \<open>AList.update\<close> overwrites in place or
  appends, as a dict assignment does.
\<close>

fun parse_loop :: "snapshot \<Rightarrow> code_arguments \<Rightarrow> string list \<Rightarrow> props \<Rightarrow> props \<times> py_error option" where
  "parse_loop lcls ca [] ps = (ps, None)"
| "parse_loop lcls ca (k # ks) ps =
     (case map_of ps k of
        None \<Rightarrow> (ps, Some KeyError)
      | Some v \<Rightarrow>
         (let k' = parse_property_key k;
              ps1 = (if k \<noteq> k' then AList.delete k ps else ps)
          in parse_loop lcls ca ks (AList.update k' (parse_property lcls k' v ca) ps1)))"

text \<open>\<^verbatim>\<open>d.update(other)\<close> on dicts.\<close>

fun dict_update :: "('k \<times> 'v) list \<Rightarrow> ('k \<times> 'v) list \<Rightarrow> ('k \<times> 'v) list" where
  "dict_update d [] = d"
| "dict_update d ((k, v) # kvs) = dict_update (AList.update k v d) kvs"

section \<open>Call sites\<close>

text \<open>
  The builder reads the frame of its caller: the local variables (\<^verbatim>\<open>f_locals\<close>) and the
  source line of the call (\<^verbatim>\<open>code_context\<close>). Parsing Python is the work of the \<^verbatim>\<open>ast\<close>
  module, so a source line is given as what \<^verbatim>\<open>ast.parse(c.strip())\<close> and \<^verbatim>\<open>ast.walk\<close>
  make of it: \<open>Unparsable\<close> when \<^verbatim>\<open>ast.parse\<close> raises, otherwise the \<^verbatim>\<open>Call\<close> nodes in
  the order of the walk. An argument expression is a bare name, an expression that
  \<^verbatim>\<open>ast.literal_eval\<close> evaluates (given with its value), or one on which it raises.
\<close>

datatype ast_expr = Name string | Literal pyval | NonLiteral

record call_node =
  call_args :: "ast_expr list"
  call_keywords :: "(string option \<times> ast_expr) list"

datatype src_line = Unparsable | Parsed "call_node list"

record frame_info =
  f_locals :: "(string \<times> pyobj) list"
  code_context :: "src_line list"

fun arg_value :: "ast_expr \<Rightarrow> py_error + pyval" where
  "arg_value (Name i) = Inr (NewStr i)"
| "arg_value (Literal v) = Inr v"
| "arg_value NonLiteral = Inl ValueError"

fun keyword_arguments ::
  "(string option \<times> ast_expr) list \<Rightarrow> code_arguments \<Rightarrow> py_error + code_arguments" where
  "keyword_arguments [] ca = Inr ca"
| "keyword_arguments ((arg, e) # kws) ca =
     (case arg_value e of
        Inl err \<Rightarrow> Inl err
      | Inr v \<Rightarrow> keyword_arguments kws (ca(arg \<mapsto> v)))"

fun call_arguments :: "string \<Rightarrow> call_node list \<Rightarrow> code_arguments \<Rightarrow> py_error + code_arguments" where
  "call_arguments dp [] ca = Inr ca"
| "call_arguments dp (node # nodes) ca =
     (case (case call_args node of
              arg # _ \<Rightarrow>
                if dp \<noteq> [] then
                  (case arg_value arg of Inl err \<Rightarrow> Inl err | Inr v \<Rightarrow> Inr (ca(Some dp \<mapsto> v)))
                else Inr ca
            | [] \<Rightarrow> Inr ca) of
        Inl err \<Rightarrow> Inl err
      | Inr ca1 \<Rightarrow>
         (case keyword_arguments (call_keywords node) ca1 of
            Inl err \<Rightarrow> Inl err
          | Inr ca2 \<Rightarrow> call_arguments dp nodes ca2))"

fun line_arguments :: "string \<Rightarrow> src_line list \<Rightarrow> code_arguments \<Rightarrow> py_error + code_arguments" where
  "line_arguments dp [] ca = Inr ca"
| "line_arguments dp (Unparsable # ls) ca = Inl SyntaxError"
| "line_arguments dp (Parsed nodes # ls) ca =
     (case call_arguments dp nodes ca of
        Inl err \<Rightarrow> Inl err
      | Inr ca1 \<Rightarrow> line_arguments dp ls ca1)"

definition get_code_arguments :: "string \<Rightarrow> frame_info \<Rightarrow> py_error + code_arguments" where
  "get_code_arguments dp frame = line_arguments dp (code_context frame) Map.empty"

section \<open>Elements\<close>

text \<open>
  A concrete element class is one of the three bases of the file with its two class
  attributes. An element object holds the instance attributes; \<open>None\<close> is an attribute
  that has not been assigned yet, and reading it raises \<^verbatim>\<open>AttributeError\<close>. The instance
  attribute \<^verbatim>\<open>_ELEMENT_NAME\<close> exists only after \<^verbatim>\<open>html.__init__\<close> has set it, to a
  value or to Python's \<^verbatim>\<open>None\<close> (\<open>Some None\<close>).
\<close>

type_synonym addr = nat

datatype base = Block | Html | Control

record pyclass =
  base :: base
  cls_ELEMENT_NAME :: string
  cls_DEFAULT_PROPERTY :: string

definition DefaultBlock :: pyclass where
  "DefaultBlock = \<lparr>base = Block, cls_ELEMENT_NAME = ''part'', cls_DEFAULT_PROPERTY = []\<rparr>"

definition html :: pyclass where
  "html = \<lparr>base = Html, cls_ELEMENT_NAME = [], cls_DEFAULT_PROPERTY = []\<rparr>"

record element =
  cls :: pyclass
  lcls :: "snapshot option"
  properties :: "props option"
  children :: "addr list option"
  ELEMENT_NAME :: "pyval option option"
  content :: "pyval option"

definition blank :: "pyclass \<Rightarrow> element" where
  "blank c = \<lparr>cls = c, lcls = None, properties = None, children = None,
              ELEMENT_NAME = None, content = None\<rparr>"

text \<open>
  \<^verbatim>\<open>_parse_properties\<close> on an element. \<^verbatim>\<open>__init__\<close> assigns \<^verbatim>\<open>__locals\<close> and
  \<^verbatim>\<open>_properties\<close> together, so an element has both or neither.
\<close>

definition parse_properties ::
  "element \<Rightarrow> string list option \<Rightarrow> code_arguments \<Rightarrow> element \<times> py_error option" where
  "parse_properties self updated_property_list ca =
     (case (properties self, lcls self) of
        (Some ps, Some l) \<Rightarrow>
          (let ks = (case updated_property_list of None \<Rightarrow> map fst ps | Some ks \<Rightarrow> ks);
               (ps', err) = parse_loop l ca ks ps
           in (self\<lparr>properties := Some ps'\<rparr>, err))
      | _ \<Rightarrow> (self, Some AttributeError))"

definition Element_init ::
  "element \<Rightarrow> pyobj list \<Rightarrow> (string \<times> pyobj) list \<Rightarrow> frame_info \<Rightarrow> element \<times> py_error option" where
  "Element_init self args kwargs source_frame =
     (let dp = cls_DEFAULT_PROPERTY (cls self);
          self1 = self\<lparr>lcls :=
            Some (filter (\<lambda>(key, value). \<not> startswith key ''_'') (f_locals source_frame))\<rparr>;
          seed = (case args of a # _ \<Rightarrow> if dp \<noteq> [] then [(dp, Ref a)] else [] | [] \<Rightarrow> []);
          self2 = self1\<lparr>properties :=
            Some (dict_update seed (map (\<lambda>(k, v). (k, Ref v)) kwargs))\<rparr>
      in case get_code_arguments dp source_frame of
           Inl err \<Rightarrow> (self2, Some err)
         | Inr ca \<Rightarrow> parse_properties self2 None ca)"

definition update ::
  "element \<Rightarrow> pyobj list \<Rightarrow> (string \<times> pyobj) list \<Rightarrow> frame_info \<Rightarrow> element \<times> py_error option" where
  "update self args kwargs update_source_frame =
     (let dp = cls_DEFAULT_PROPERTY (cls self);
          kwargs1 = (case args of a # _ \<Rightarrow> AList.update dp a kwargs | [] \<Rightarrow> kwargs)
      in case properties self of
           None \<Rightarrow> (self, Some AttributeError)
         | Some ps \<Rightarrow>
            (let self1 = self\<lparr>properties :=
                   Some (dict_update ps (map (\<lambda>(k, v). (k, Ref v)) kwargs1))\<rparr>
             in case get_code_arguments dp update_source_frame of
                  Inl err \<Rightarrow> (self1, Some err)
                | Inr ca \<Rightarrow> parse_properties self1 (Some (map fst kwargs1)) ca))"

definition Block_init ::
  "element \<Rightarrow> pyobj list \<Rightarrow> (string \<times> pyobj) list \<Rightarrow> frame_info \<Rightarrow> element \<times> py_error option" where
  "Block_init self args kwargs source_frame =
     (case Element_init self args kwargs source_frame of
        (self1, Some err) \<Rightarrow> (self1, Some err)
      | (self1, None) \<Rightarrow> (self1\<lparr>children := Some []\<rparr>, None))"

definition html_init ::
  "element \<Rightarrow> pyobj list \<Rightarrow> (string \<times> pyobj) list \<Rightarrow> frame_info \<Rightarrow> element \<times> py_error option" where
  "html_init self args kwargs source_frame =
     (case Block_init self args kwargs source_frame of
        (self1, Some err) \<Rightarrow> (self1, Some err)
      | (self1, None) \<Rightarrow>
         (case args of
            [] \<Rightarrow> (self1, Some RuntimeError)
          | a0 # others \<Rightarrow>
             (self1\<lparr>ELEMENT_NAME := Some (if truthy a0 then Some (Ref a0) else None),
                     content := Some (case others of a1 # _ \<Rightarrow> Ref a1 | [] \<Rightarrow> NewStr [])\<rparr>,
              None)))"

definition Control_init ::
  "element \<Rightarrow> pyobj list \<Rightarrow> (string \<times> pyobj) list \<Rightarrow> frame_info \<Rightarrow> element \<times> py_error option" where
  "Control_init self args kwargs source_frame = Element_init self args kwargs source_frame"

section \<open>The store and the BuilderContext\<close>

text \<open>
  Containers are shared and mutated (the open container is on the stack and in its
  parent's child list), so elements live in a store and are named by their addresses;
  \<open>next_addr\<close> is the address the next allocation returns.
\<close>

record state =
  heap :: "addr \<rightharpoonup> element"
  next_addr :: addr
  blocks :: "addr list"

definition init_state :: state where
  "init_state = \<lparr>heap = Map.empty, next_addr = 0, blocks = []\<rparr>"

text \<open>
  The class \<^verbatim>\<open>_BuilderContextManager\<close> of \<^verbatim>\<open>_context_manager.py\<close> is not among
  the sources. The spec describes it as the process-wide stack of the open containers,
  empty at the start; the three operations the elements call follow its words.
\<close>

text \<open>
  Modelled from the spec: \<^verbatim>\<open>_BuilderContextManager.push\<close> is missing; scope entry pushes
  the container onto the stack.
\<close>

definition push :: "addr \<Rightarrow> addr list \<Rightarrow> addr list" where
  "push b st = b # st"

text \<open>
  Modelled from the spec: \<^verbatim>\<open>_BuilderContextManager.pop\<close> is missing; scope exit pops the
  stack, and an unbalanced pop is a scope-discipline error raised immediately.
\<close>

definition pop :: "addr list \<Rightarrow> py_error + addr list" where
  "pop st = (case st of [] \<Rightarrow> Inl ScopeError | b # rest \<Rightarrow> Inr rest)"

text \<open>
  Modelled from the spec: \<^verbatim>\<open>_BuilderContextManager.peek\<close> is missing; it gives the
  topmost open container, or nothing when no scope is open.
\<close>

definition peek :: "addr list \<Rightarrow> addr option" where
  "peek st = (case st of [] \<Rightarrow> None | b # rest \<Rightarrow> Some b)"

text \<open>
  \<^verbatim>\<open>_Block.add\<close>. No class of the file defines \<^verbatim>\<open>__eq__\<close>, so \<^verbatim>\<open>element not in
  self._children\<close> compares identities, that is addresses. The attribute \<^verbatim>\<open>_children\<close>
  is read in the loop body only. A \<^verbatim>\<open>_Control\<close> has no method \<^verbatim>\<open>add\<close>.
\<close>

fun add_loop :: "addr list \<Rightarrow> addr list \<Rightarrow> addr list" where
  "add_loop cs [] = cs"
| "add_loop cs (e # es) = add_loop (if e \<in> set cs then cs else cs @ [e]) es"

definition add :: "state \<Rightarrow> addr \<Rightarrow> addr list \<Rightarrow> state \<times> (py_error + addr)" where
  "add s self elements =
     (case heap s self of
        None \<Rightarrow> (s, Inl AttributeError)
      | Some el \<Rightarrow>
         if base (cls el) = Control then (s, Inl AttributeError)
         else if elements = [] then (s, Inr self)
         else
           (case children el of
              None \<Rightarrow> (s, Inl AttributeError)
            | Some cs \<Rightarrow>
               (s\<lparr>heap := (heap s)(self \<mapsto> el\<lparr>children := Some (add_loop cs elements)\<rparr>)\<rparr>,
                Inr self)))"

definition enter :: "state \<Rightarrow> addr \<Rightarrow> state \<times> (py_error + addr)" where
  "enter s self =
     (case heap s self of
        None \<Rightarrow> (s, Inl AttributeError)
      | Some el \<Rightarrow>
         if base (cls el) = Control then (s, Inl RuntimeError)
         else (s\<lparr>blocks := push self (blocks s)\<rparr>, Inr self))"

definition exit :: "state \<Rightarrow> addr \<Rightarrow> state \<times> py_error option" where
  "exit s self =
     (case heap s self of
        None \<Rightarrow> (s, Some AttributeError)
      | Some el \<Rightarrow>
         if base (cls el) = Control then (s, Some RuntimeError)
         else
           (case pop (blocks s) of
              Inl err \<Rightarrow> (s, Some err)
            | Inr st \<Rightarrow> (s\<lparr>blocks := st\<rparr>, None)))"

text \<open>
  \<^verbatim>\<open>_Element.__new__\<close> allocates the object and registers it with the open container;
  \<^verbatim>\<open>cls(*args, **kwargs)\<close> then runs the initialiser of the class on it.
\<close>

definition new :: "state \<Rightarrow> pyclass \<Rightarrow> state \<times> (py_error + addr)" where
  "new s c =
     (let obj = next_addr s;
          s1 = s\<lparr>heap := (heap s)(obj \<mapsto> blank c), next_addr := Suc obj\<rparr>
      in case peek (blocks s1) of
           None \<Rightarrow> (s1, Inr obj)
         | Some parent \<Rightarrow>
            (case add s1 parent [obj] of
               (s2, Inl err) \<Rightarrow> (s2, Inl err)
             | (s2, Inr r) \<Rightarrow> (s2, Inr obj)))"

definition init ::
  "state \<Rightarrow> addr \<Rightarrow> pyobj list \<Rightarrow> (string \<times> pyobj) list \<Rightarrow> frame_info \<Rightarrow> state \<times> py_error option" where
  "init s self args kwargs source_frame =
     (case heap s self of
        None \<Rightarrow> (s, Some AttributeError)
      | Some el \<Rightarrow>
         (let (el', err) =
                (case base (cls el) of
                   Block \<Rightarrow> Block_init el args kwargs source_frame
                 | Html \<Rightarrow> html_init el args kwargs source_frame
                 | Control \<Rightarrow> Control_init el args kwargs source_frame)
          in (s\<lparr>heap := (heap s)(self \<mapsto> el')\<rparr>, err)))"

definition construct ::
  "state \<Rightarrow> pyclass \<Rightarrow> pyobj list \<Rightarrow> (string \<times> pyobj) list \<Rightarrow> frame_info \<Rightarrow> state \<times> (py_error + addr)" where
  "construct s c args kwargs source_frame =
     (case new s c of
        (s1, Inl err) \<Rightarrow> (s1, Inl err)
      | (s1, Inr obj) \<Rightarrow>
         (case init s1 obj args kwargs source_frame of
            (s2, Some err) \<Rightarrow> (s2, Inl err)
          | (s2, None) \<Rightarrow> (s2, Inr obj)))"

text \<open>The child list of the element at an address (empty when there is none).\<close>

definition children_of :: "state \<Rightarrow> addr \<Rightarrow> addr list" where
  "children_of s a =
     (case heap s a of None \<Rightarrow> [] | Some el \<Rightarrow> (case children el of None \<Rightarrow> [] | Some cs \<Rightarrow> cs))"

text \<open>
  Every address in the store or in a child list has been allocated.
\<close>

definition wf_state :: "state \<Rightarrow> bool" where
  "wf_state s \<longleftrightarrow>
     (\<forall>a. a \<in> dom (heap s) \<longrightarrow> a < next_addr s) \<and>
     (\<forall>a. \<forall>c\<in>set (children_of s a). c < next_addr s)"

section \<open>Example objects and call sites\<close>

text \<open>
  Objects and source lines for the concrete instances below: the integer 5, two distinct
  string objects that both read \<open>hello\<close>, the class \<open>int\<close>, and a source line that
  is one call with one keyword argument.
\<close>

definition five :: pyobj where
  "five = \<lparr>oid = 1, name_attr = None, kind = KOther, str_of = ''5'', truthy = True\<rparr>"

definition hello :: pyobj where
  "hello = \<lparr>oid = 2, name_attr = None, kind = KStr, str_of = ''hello'', truthy = True\<rparr>"

definition hello_literal :: pyobj where
  "hello_literal = \<lparr>oid = 3, name_attr = None, kind = KStr, str_of = ''hello'', truthy = True\<rparr>"

definition int_class :: pyobj where
  "int_class = \<lparr>oid = 4, name_attr = Some ''int'', kind = KOther, str_of = ''<class int>'', truthy = True\<rparr>"

definition keyword_call :: "string \<Rightarrow> ast_expr \<Rightarrow> src_line" where
  "keyword_call key e = Parsed [\<lparr>call_args = [], call_keywords = [(Some key, e)]\<rparr>]"

text \<open>
  Keys that do not interfere under normalisation: no key of the list normalises to another
  key of the list or to the normalised form of another.
\<close>

definition no_clash :: "string list \<Rightarrow> bool" where
  "no_clash ks \<longleftrightarrow>
     (\<forall>k\<in>set ks. \<forall>j\<in>set ks. k \<noteq> j \<longrightarrow>
        parse_property_key k \<noteq> parse_property_key j \<and> parse_property_key k \<noteq> j)"

text \<open>
  A control class whose default property is \<open>label\<close>, an element of it as construction
  at a site with the local variable \<open>x\<close> leaves it, and call sites: one that writes
  \<^verbatim>\<open>label=x\<close> with \<open>x\<close> a local variable, the same without local variables, a call with
  no arguments, and a call with a positional and a keyword literal.
\<close>

definition button :: pyclass where
  "button = \<lparr>base = Control, cls_ELEMENT_NAME = ''button'', cls_DEFAULT_PROPERTY = ''label''\<rparr>"

definition bare_call :: src_line where
  "bare_call = Parsed [\<lparr>call_args = [], call_keywords = []\<rparr>]"

definition styled_button :: element where
  "styled_button = \<lparr>cls = button, lcls = Some [(''x'', five)],
     properties = Some [(''width'', NewStr ''100'')], children = None,
     ELEMENT_NAME = None, content = None\<rparr>"

definition site_x :: frame_info where
  "site_x = \<lparr>f_locals = [(''x'', five)], code_context = [keyword_call ''label'' (Name ''x'')]\<rparr>"

definition site_no_locals :: frame_info where
  "site_no_locals = \<lparr>f_locals = [], code_context = [keyword_call ''label'' (Name ''x'')]\<rparr>"

definition site_positional :: frame_info where
  "site_positional = \<lparr>f_locals = [], code_context =
     [Parsed [\<lparr>call_args = [Literal (Ref hello_literal)],
               call_keywords = [(Some ''label'', Literal (Ref five))]\<rparr>]]\<rparr>"




text \<open>
  A member of an \<^verbatim>\<open>enum.Enum\<close> class, as in \<^verbatim>\<open>Color.RED\<close>: Python gives it the
  attributes \<^verbatim>\<open>name\<close> and \<^verbatim>\<open>value\<close> but no \<^verbatim>\<open>__name__\<close>
  (\<^verbatim>\<open>hasattr(Color.RED, "__name__")\<close> is false); it is not iterable and its string is
  the qualified name.
\<close>

definition enum_member :: pyobj where
  "enum_member = \<lparr>oid = 5, name_attr = None, kind = KOther, str_of = ''Color.RED'', truthy = True\<rparr>"


section \<open>Rendering\<close>

text \<open>
  \<^verbatim>\<open>_BuilderFactory.create_element\<close> belongs to \<^verbatim>\<open>_factory.py\<close>, which is not among
  the sources: it is a parameter, a function from the element name and the properties to
  the pair \<^verbatim>\<open>(el[0], el[1])\<close> or to an error (the \<^verbatim>\<open>gui\<close> argument is fixed inside it).
  \<^verbatim>\<open>get_properties()\<close> hands it a deep copy, which in a model without mutation is the
  property list itself.
\<close>

type_synonym factory = "string \<Rightarrow> props \<Rightarrow> py_error + (string \<times> string)"

definition dquote :: char where
  "dquote = CHR 0x22"

text \<open>
  A list comprehension evaluates its items in order and stops at the first that raises;
  \<^verbatim>\<open>"\n".join\<close> raises \<^verbatim>\<open>TypeError\<close> on an item that is not a string.
\<close>

fun sequence :: "(py_error + 'a) list \<Rightarrow> py_error + 'a list" where
  "sequence [] = Inr []"
| "sequence (r # rs) =
     (case r of
        Inl err \<Rightarrow> Inl err
      | Inr v \<Rightarrow> (case sequence rs of Inl err \<Rightarrow> Inl err | Inr vs \<Rightarrow> Inr (v # vs)))"

definition join_rendered :: "pyval list \<Rightarrow> py_error + string" where
  "join_rendered vs =
     (if list_all is_str vs then Inr (join [newline] (map py_str vs)) else Inl TypeError)"

definition render_children :: "(addr \<Rightarrow> py_error + pyval) \<Rightarrow> element \<Rightarrow> py_error + string" where
  "render_children child_render self =
     (case children self of
        None \<Rightarrow> Inl AttributeError
      | Some cs \<Rightarrow>
         (case sequence (map child_render cs) of
            Inl err \<Rightarrow> Inl err
          | Inr vs \<Rightarrow> join_rendered vs))"

definition Block_render ::
  "factory \<Rightarrow> (addr \<Rightarrow> py_error + pyval) \<Rightarrow> element \<Rightarrow> py_error + pyval" where
  "Block_render create_element child_render self =
     (case properties self of
        None \<Rightarrow> Inl AttributeError
      | Some ps \<Rightarrow>
         (case create_element (cls_ELEMENT_NAME (cls self)) ps of
            Inl err \<Rightarrow> Inl err
          | Inr (el0, el1) \<Rightarrow>
             (case render_children child_render self of
                Inl err \<Rightarrow> Inl err
              | Inr rc \<Rightarrow> Inr (NewStr (el0 @ rc @ ''</'' @ el1 @ ''>'')))))"

text \<open>
  \<^verbatim>\<open>self._ELEMENT_NAME\<close> of an \<^verbatim>\<open>html\<close> object is the instance attribute once
  \<^verbatim>\<open>__init__\<close> has set it and the class attribute before; \<open>None\<close> is Python's
  \<^verbatim>\<open>None\<close>. An f-string inserts \<^verbatim>\<open>str()\<close> of each value.
\<close>

definition self_ELEMENT_NAME :: "element \<Rightarrow> pyval option" where
  "self_ELEMENT_NAME self =
     (case ELEMENT_NAME self of
        None \<Rightarrow> Some (NewStr (cls_ELEMENT_NAME (cls self)))
      | Some n \<Rightarrow> n)"

definition html_attrs :: "props \<Rightarrow> string" where
  "html_attrs ps =
     (if ps \<noteq> [] then
        '' '' @ join '' '' (map (\<lambda>(k, v). k @ ''='' @ [dquote] @ py_str v @ [dquote]) ps)
      else [])"

definition html_render :: "(addr \<Rightarrow> py_error + pyval) \<Rightarrow> element \<Rightarrow> py_error + pyval" where
  "html_render child_render self =
     (case (case self_ELEMENT_NAME self of None \<Rightarrow> None
            | Some n \<Rightarrow> if py_bool n then Some n else None) of
        Some n \<Rightarrow>
          (case properties self of
             None \<Rightarrow> Inl AttributeError
           | Some ps \<Rightarrow>
              (case content self of
                 None \<Rightarrow> Inl AttributeError
               | Some c \<Rightarrow>
                  (case render_children child_render self of
                     Inl err \<Rightarrow> Inl err
                   | Inr rc \<Rightarrow>
                      Inr (NewStr (''<'' @ py_str n @ html_attrs ps @ ''>'' @ py_str c @ rc
                                     @ ''</'' @ py_str n @ ''>'')))))
      | None \<Rightarrow>
          (case content self of
             None \<Rightarrow> Inl AttributeError
           | Some c \<Rightarrow> Inr c))"

definition Control_render :: "factory \<Rightarrow> element \<Rightarrow> py_error + pyval" where
  "Control_render create_element self =
     (case properties self of
        None \<Rightarrow> Inl AttributeError
      | Some ps \<Rightarrow>
         (case create_element (cls_ELEMENT_NAME (cls self)) ps of
            Inl err \<Rightarrow> Inl err
          | Inr (el0, el1) \<Rightarrow>
             Inr (NewStr
               (if str_in (''<'' @ el1) el0 \<and> \<not> str_in (''</'' @ el1) el0
                then ''<div>'' @ el0 @ ''</'' @ el1 @ ''></div>''
                else ''<div>'' @ el0 @ ''</div>''))))"

text \<open>
  \<^verbatim>\<open>_render\<close>, dispatched on the class of the object. Child lists can form a cycle
  (\<^verbatim>\<open>c.add(c)\<close>), on which Python's recursion ends in \<^verbatim>\<open>RecursionError\<close>: the depth
  of nested calls is bounded by the first argument.
\<close>

primrec render :: "nat \<Rightarrow> factory \<Rightarrow> (addr \<rightharpoonup> element) \<Rightarrow> addr \<Rightarrow> py_error + pyval" where
  "render 0 create_element h a = Inl RecursionError"
| "render (Suc n) create_element h a =
     (case h a of
        None \<Rightarrow> Inl AttributeError
      | Some self \<Rightarrow>
         (case base (cls self) of
            Block \<Rightarrow> Block_render create_element (render n create_element h) self
          | Html \<Rightarrow> html_render (render n create_element h) self
          | Control \<Rightarrow> Control_render create_element self))"

text \<open>
  A control with no properties, and two factories: one answers with an \<open>input\<close> tag
  left open, the other with a fragment that closes its tag.
\<close>

definition input_control :: element where
  "input_control = \<lparr>cls = \<lparr>base = Control, cls_ELEMENT_NAME = ''input'', cls_DEFAULT_PROPERTY = ''value''\<rparr>,
     lcls = Some [], properties = Some [], children = None, ELEMENT_NAME = None, content = None\<rparr>"

definition open_factory :: factory where
  "open_factory name ps = Inr (''<input type=text>'', ''input'')"

definition closed_factory :: factory where
  "closed_factory name ps = Inr (''<b>x</b>'', ''b'')"

text \<open>
  String objects, Python's \<^verbatim>\<open>None\<close>, the call sites of \<^verbatim>\<open>html("h1", "Title")\<close>,
  \<^verbatim>\<open>html(None, "text")\<close> and \<^verbatim>\<open>html("p", "text", title="a<&b")\<close>, the store the last
  call leaves, and a factory that always fails (\<^verbatim>\<open>html\<close> never calls it).
\<close>

definition h1_obj :: pyobj where
  "h1_obj = \<lparr>oid = 10, name_attr = None, kind = KStr, str_of = ''h1'', truthy = True\<rparr>"

definition title_obj :: pyobj where
  "title_obj = \<lparr>oid = 11, name_attr = None, kind = KStr, str_of = ''Title'', truthy = True\<rparr>"

definition none_obj :: pyobj where
  "none_obj = \<lparr>oid = 12, name_attr = None, kind = KOther, str_of = ''None'', truthy = False\<rparr>"

definition text_obj :: pyobj where
  "text_obj = \<lparr>oid = 13, name_attr = None, kind = KStr, str_of = ''text'', truthy = True\<rparr>"

definition site_h1 :: frame_info where
  "site_h1 = \<lparr>f_locals = [], code_context =
     [Parsed [\<lparr>call_args = [Literal (Ref h1_obj), Literal (Ref title_obj)], call_keywords = []\<rparr>]]\<rparr>"

definition site_text :: frame_info where
  "site_text = \<lparr>f_locals = [], code_context =
     [Parsed [\<lparr>call_args = [Literal (Ref none_obj), Literal (Ref text_obj)], call_keywords = []\<rparr>]]\<rparr>"

definition p_obj :: pyobj where
  "p_obj = \<lparr>oid = 14, name_attr = None, kind = KStr, str_of = ''p'', truthy = True\<rparr>"

definition amp_obj :: pyobj where
  "amp_obj = \<lparr>oid = 15, name_attr = None, kind = KStr, str_of = ''a<&b'', truthy = True\<rparr>"

definition site_p :: frame_info where
  "site_p = \<lparr>f_locals = [], code_context =
     [Parsed [\<lparr>call_args = [Literal (Ref p_obj), Literal (Ref text_obj)],
               call_keywords = [(Some ''title'', Literal (Ref amp_obj))]\<rparr>]]\<rparr>"

definition titled_p :: state where
  "titled_p = fst (construct init_state html [p_obj, text_obj] [(''title'', amp_obj)] site_p)"

definition no_factory :: factory where
  "no_factory name ps = Inl RuntimeError"

text \<open>
  The store after \<^verbatim>\<open>html(None, "text")\<close> has been opened as a scope,
  \<^verbatim>\<open>html("h1", "Title")\<close> built inside it, and the scope left.
\<close>

definition text_with_child :: state where
  "text_with_child =
     (let (s1, r1) = construct init_state html [none_obj, text_obj] [] site_text;
          (s2, r2) = enter s1 0;
          (s3, r3) = construct s2 html [h1_obj, title_obj] [] site_h1;
          (s4, r4) = exit s3 0
      in s4)"

text \<open>
  An initialised container without children, and a store that holds it at address 0.
\<close>

definition empty_part :: element where
  "empty_part = \<lparr>cls = DefaultBlock, lcls = Some [], properties = Some [],
     children = Some [], ELEMENT_NAME = None, content = None\<rparr>"

definition one_part :: state where
  "one_part = \<lparr>heap = Map.empty(0 \<mapsto> empty_part), next_addr = 3, blocks = []\<rparr>"

text \<open>
  A store in which the container at address 0 is the open scope.
\<close>

definition open_part :: state where
  "open_part = \<lparr>heap = Map.empty(0 \<mapsto> empty_part), next_addr = 1, blocks = [0]\<rparr>"

section \<open>The leaf rule in the spec's words\<close>

text \<open>
  The spec's condition for a leaf reads: the fragment contains an opening tag for the tag
  name but no matching closing tag. Following these words, an opening tag for a name is
  \<open><\<close>, the name, and then a character that ends a tag name (white space, \<open>>\<close> or
  \<open>/\<close>); a closing tag is \<open></\<close>, the name, and then such a character.
  \<open>spec_Leaf_render\<close> is the rendering the spec's sentence prescribes, to be compared
  with \<open>Control_render\<close>, which is the code.
\<close>

definition tag_name_end :: "char \<Rightarrow> bool" where
  "tag_name_end c = (py_space c \<or> c = CHR ''>'' \<or> c = CHR ''/'')"

definition tag_here :: "string \<Rightarrow> string \<Rightarrow> bool" where
  "tag_here start s =
     (startswith s start \<and>
      (case drop (length start) s of [] \<Rightarrow> False | c # _ \<Rightarrow> tag_name_end c))"

fun tag_in :: "string \<Rightarrow> string \<Rightarrow> bool" where
  "tag_in start [] = False"
| "tag_in start (c # cs) = (tag_here start (c # cs) \<or> tag_in start cs)"

definition spec_opening_tag :: "string \<Rightarrow> string \<Rightarrow> bool" where
  "spec_opening_tag tag frag = tag_in (''<'' @ tag) frag"

definition spec_closing_tag :: "string \<Rightarrow> string \<Rightarrow> bool" where
  "spec_closing_tag tag frag = tag_in (''</'' @ tag) frag"

definition spec_Leaf_render :: "string \<Rightarrow> string \<Rightarrow> string" where
  "spec_Leaf_render frag tag =
     (if spec_opening_tag tag frag \<and> \<not> spec_closing_tag tag frag
      then ''<div>'' @ frag @ ''</'' @ tag @ ''></div>''
      else ''<div>'' @ frag @ ''</div>'')"

text \<open>
  Two factories whose fragments hold the tag name \<open>inputs\<close>, which begins with the
  tag name \<open>input\<close> that they answer.
\<close>

definition inputs_factory :: factory where
  "inputs_factory name ps = Inr (''<inputs>'', ''input'')"

definition other_close_factory :: factory where
  "other_close_factory name ps = Inr (''<input></inputs>'', ''input'')"

text \<open>
  The store after \<^verbatim>\<open>html("div", id="a", title="a<&b")\<close> has been opened as a scope
  and \<^verbatim>\<open>html("h1", "Title")\<close> and \<^verbatim>\<open>html(None, "text")\<close> built inside it: an
  element with two properties and two children.
\<close>

definition div_obj :: pyobj where
  "div_obj = \<lparr>oid = 16, name_attr = None, kind = KStr, str_of = ''div'', truthy = True\<rparr>"

definition a_obj :: pyobj where
  "a_obj = \<lparr>oid = 17, name_attr = None, kind = KStr, str_of = ''a'', truthy = True\<rparr>"

definition site_div :: frame_info where
  "site_div = \<lparr>f_locals = [], code_context =
     [Parsed [\<lparr>call_args = [Literal (Ref div_obj)],
               call_keywords = [(Some ''id'', Literal (Ref a_obj)),
                                (Some ''title'', Literal (Ref amp_obj))]\<rparr>]]\<rparr>"

definition div_with_children :: state where
  "div_with_children =
     (let (s1, r1) = construct init_state html [div_obj] [(''id'', a_obj), (''title'', amp_obj)] site_div;
          (s2, r2) = enter s1 0;
          (s3, r3) = construct s2 html [h1_obj, title_obj] [] site_h1;
          (s4, r4) = construct s3 html [none_obj, text_obj] [] site_text;
          (s5, r5) = exit s4 0
      in s5)"

section \<open>Key normalisation: the first double underscore wins\<close>

lemma not_word_newline: "\<not> word_char newline"
  by (simp add: word_char_def newline_def)

lemma re_tail_iff:
  "re_tail s = Some w \<longleftrightarrow>
     w \<noteq> [] \<and> (\<forall>c\<in>set w. word_char c) \<and> (s = ''__'' @ w \<or> s = ''__'' @ w @ [newline])"
proof -
  consider (long) a b rest where "s = a # b # rest" | (short) "s = [] \<or> (\<exists>v. s = [v])"
    by (cases s rule: re_tail.cases) auto
  then show ?thesis
  proof cases
    case long
    have split: "rest = takeWhile word_char rest @ dropWhile word_char rest" by simp
    show ?thesis
    proof
      assume "re_tail s = Some w"
      with long have ab: "a = CHR ''_''" "b = CHR ''_''"
        and w: "w = takeWhile word_char rest" "w \<noteq> []"
        and r: "dropWhile word_char rest = [] \<or> dropWhile word_char rest = [newline]"
        by (auto simp: Let_def split: if_splits)
      have "\<forall>c\<in>set w. word_char c" using w(1) by (auto dest: set_takeWhileD)
      moreover have "rest = w \<or> rest = w @ [newline]"
        using r split w(1) by (metis append_Nil2)
      ultimately show "w \<noteq> [] \<and> (\<forall>c\<in>set w. word_char c) \<and>
          (s = ''__'' @ w \<or> s = ''__'' @ w @ [newline])"
        using long ab w(2) by auto
    next
      assume R: "w \<noteq> [] \<and> (\<forall>c\<in>set w. word_char c) \<and>
          (s = ''__'' @ w \<or> s = ''__'' @ w @ [newline])"
      then have ab: "a = CHR ''_''" "b = CHR ''_''" and rest: "rest = w \<or> rest = w @ [newline]"
        using long by auto
      from rest have "takeWhile word_char rest = w \<and>
         (dropWhile word_char rest = [] \<or> dropWhile word_char rest = [newline])"
      proof
        assume "rest = w"
        then show ?thesis using R by simp
      next
        assume "rest = w @ [newline]"
        then show ?thesis using R not_word_newline
          by (simp add: takeWhile_tail dropWhile_append3)
      qed
      then show "re_tail s = Some w" using long ab R by (auto simp: Let_def)
    qed
  next
    case short
    then show ?thesis by (cases w) auto
  qed
qed

lemma RE_sound:
  "RE_INDEXED_PROPERTY pre s = Some (g1, g2) \<Longrightarrow>
     \<exists>p t. g1 = pre @ p \<and> s = p @ t \<and> newline \<notin> set p \<and> re_tail t = Some g2 \<and>
       (\<forall>q u. s = q @ u \<and> length q < length p \<longrightarrow> re_tail u = None)"
proof (induction s arbitrary: pre)
  case Nil
  then show ?case by simp
next
  case (Cons c cs)
  show ?case
  proof (cases "re_tail (c # cs)")
    case (Some w)
    with Cons.prems have "g1 = pre" "g2 = w" by auto
    with Some show ?thesis by (intro exI[of _ "[]"] exI[of _ "c # cs"]) simp
  next
    case None
    with Cons.prems have nl: "c \<noteq> newline"
      and rec: "RE_INDEXED_PROPERTY (pre @ [c]) cs = Some (g1, g2)"
      by (auto split: if_splits)
    from Cons.IH[OF rec] obtain p t where
      p: "g1 = (pre @ [c]) @ p" "cs = p @ t" "newline \<notin> set p" "re_tail t = Some g2"
        "\<forall>q u. cs = q @ u \<and> length q < length p \<longrightarrow> re_tail u = None"
      by blast
    have "\<forall>q u. c # cs = q @ u \<and> length q < length (c # p) \<longrightarrow> re_tail u = None"
    proof (intro allI impI)
      fix q u assume a: "c # cs = q @ u \<and> length q < length (c # p)"
      show "re_tail u = None"
      proof (cases q)
        case Nil
        with a None show ?thesis by simp
      next
        case (Cons d q')
        with a p(5) show ?thesis by auto
      qed
    qed
    with p nl show ?thesis
      by (intro exI[of _ "c # p"] exI[of _ t]) simp
  qed
qed

lemma RE_complete:
  "RE_INDEXED_PROPERTY pre s = None \<Longrightarrow> s = p @ t \<Longrightarrow> newline \<notin> set p \<Longrightarrow> re_tail t = None"
proof (induction s arbitrary: pre p)
  case Nil
  then show ?case by simp
next
  case (Cons c cs)
  show ?case
  proof (cases p)
    case Nil
    with Cons.prems show ?thesis by (auto split: option.splits)
  next
    case (Cons d p')
    with Cons.prems Cons.IH[of "pre @ [c]" p'] show ?thesis
      by (auto split: option.splits if_splits)
  qed
qed

lemma indexed_split_tail:
  "indexed_split key p w \<longleftrightarrow> newline \<notin> set p \<and> (\<exists>t. key = p @ t \<and> re_tail t = Some w)"
  by (auto simp: indexed_split_def re_tail_iff)

lemma RE_None_no_split:
  "RE_INDEXED_PROPERTY [] key = None \<Longrightarrow> \<not> indexed_split key p w"
  using RE_complete[of "[]" key p] by (auto simp: indexed_split_tail)

lemma RE_Some_split:
  assumes "RE_INDEXED_PROPERTY [] key = Some (g1, g2)"
  shows "indexed_split key g1 g2"
    and "indexed_split key p w \<Longrightarrow> length g1 \<le> length p"
proof -
  from RE_sound[OF assms] obtain t where
    t: "key = g1 @ t" "newline \<notin> set g1" "re_tail t = Some g2"
      "\<forall>q u. key = q @ u \<and> length q < length g1 \<longrightarrow> re_tail u = None"
    by auto
  show "indexed_split key g1 g2"
    using t(1-3) by (auto simp: indexed_split_tail)
  show "length g1 \<le> length p" if "indexed_split key p w"
  proof (rule ccontr)
    assume "\<not> length g1 \<le> length p"
    moreover from that obtain u where "key = p @ u" "re_tail u = Some w"
      by (auto simp: indexed_split_tail)
    ultimately show False using t(4) by force
  qed
qed

lemma indexed_split_same_prefix:
  assumes "indexed_split key p w" "indexed_split key p' w'" "length p = length p'"
  shows "p = p' \<and> w = w'"
proof -
  from assms(1) obtain t where t: "key = p @ t" "re_tail t = Some w"
    by (auto simp: indexed_split_tail)
  from assms(2) obtain t' where t': "key = p' @ t'" "re_tail t' = Some w'"
    by (auto simp: indexed_split_tail)
  from t(1) t'(1) assms(3) have "p = p'" "t = t'" by auto
  with t(2) t'(2) show ?thesis by simp
qed


text \<open>
  Claim C3 (as amended). The key is rewritten at the \<^emph>\<open>first\<close> double underscore that is
  followed by nothing but word characters up to the end of the key, where one line break
  may still follow the word characters and is dropped: when \<open>key\<close> is \<open>p__w\<close> (or
  \<open>p__w\<close> and a final line break) with \<open>w\<close> a non-empty run of word characters, no
  line break in \<open>p\<close>, and \<open>p\<close> the shortest prefix that allows such a reading, the
  normalised key is \<open>p[w]\<close>, as in \<open>color__0\<close> becoming \<open>color[0]\<close>; a key that has
  no such reading passes through unchanged. Word characters are those of \<^verbatim>\<open>[\w\d]\<close>,
  letters beyond ASCII included.
\<close>

theorem parse_property_key_first_split:
  "(indexed_split key p w \<and> (\<forall>p' w'. indexed_split key p' w' \<longrightarrow> length p \<le> length p')
      \<longrightarrow> parse_property_key key = p @ ''['' @ w @ '']'') \<and>
   ((\<forall>p' w'. \<not> indexed_split key p' w') \<longrightarrow> parse_property_key key = key)"
proof (cases "RE_INDEXED_PROPERTY [] key")
  case None
  then show ?thesis
    using RE_None_no_split[OF None] by (auto simp: parse_property_key_def)
next
  case (Some g)
  obtain g1 g2 where g: "g = (g1, g2)" by (cases g)
  note S = Some[unfolded g]
  have first: "parse_property_key key = p @ ''['' @ w @ '']''"
    if a: "indexed_split key p w" and b: "\<forall>p' w'. indexed_split key p' w' \<longrightarrow> length p \<le> length p'"
  proof -
    have "length g1 \<le> length p" using RE_Some_split(2)[OF S a] .
    moreover have "length p \<le> length g1" using b RE_Some_split(1)[OF S] by blast
    ultimately have "p = g1 \<and> w = g2"
      using indexed_split_same_prefix[OF a RE_Some_split(1)[OF S]] by simp
    then show ?thesis using S by (simp add: parse_property_key_def)
  qed
  have "\<not> (\<forall>p' w'. \<not> indexed_split key p' w')"
    using RE_Some_split(1)[OF S] by blast
  with first show ?thesis by blast
qed

lemma RE_color: "RE_INDEXED_PROPERTY [] ''color__0'' = Some (''color'', ''0'')"
  by (simp add: word_char_def newline_def)

lemma RE_label: "RE_INDEXED_PROPERTY [] ''label'' = None"
  by (simp add: word_char_def newline_def)

lemma RE_latin: "RE_INDEXED_PROPERTY [] (''a__'' @ [CHR 0xE9]) = Some (''a'', [CHR 0xE9])"
  by (simp add: word_char_def newline_def)

lemma RE_line_break: "RE_INDEXED_PROPERTY [] (''a__b'' @ [newline]) = Some (''a'', ''b'')"
  by (simp add: word_char_def newline_def)

theorem parse_property_key_first_split_witness:
  "indexed_split ''color__0'' ''color'' ''0'' \<and>
   \<not> (\<exists>p' w'. indexed_split ''color__0'' p' w' \<and> length p' < length ''color'') \<and>
   parse_property_key ''color__0'' = ''color[0]'' \<and>
   (\<forall>p' w'. \<not> indexed_split ''label'' p' w') \<and>
   parse_property_key ''label'' = ''label'' \<and>
   indexed_split (''a__'' @ [CHR 0xE9]) ''a'' [CHR 0xE9] \<and>
   parse_property_key (''a__'' @ [CHR 0xE9]) = ''a['' @ [CHR 0xE9] @ '']'' \<and>
   indexed_split (''a__b'' @ [newline]) ''a'' ''b'' \<and>
   parse_property_key (''a__b'' @ [newline]) = ''a[b]''"
proof -
  have a: "indexed_split ''color__0'' ''color'' ''0''"
    using RE_Some_split(1)[OF RE_color] .
  have b: "\<forall>p' w'. indexed_split ''color__0'' p' w' \<longrightarrow> length ''color'' \<le> length p'"
    using RE_Some_split(2)[OF RE_color] by blast
  have c: "\<forall>p' w'. \<not> indexed_split ''label'' p' w'"
    using RE_None_no_split[OF RE_label] by blast
  have "parse_property_key ''color__0'' = ''color'' @ ''['' @ ''0'' @ '']''"
    using parse_property_key_first_split[of "''color__0''" "''color''" "''0''"] a b by blast
  moreover have "parse_property_key ''label'' = ''label''"
    using parse_property_key_first_split[of "''label''"] c by blast
  moreover have "\<not> (\<exists>p' w'. indexed_split ''color__0'' p' w' \<and> length p' < length ''color'')"
    using b by (metis not_le)
  moreover have l1: "indexed_split (''a__'' @ [CHR 0xE9]) ''a'' [CHR 0xE9]"
    using RE_Some_split(1)[OF RE_latin] .
  moreover have "parse_property_key (''a__'' @ [CHR 0xE9]) = ''a'' @ ''['' @ [CHR 0xE9] @ '']''"
    using parse_property_key_first_split[of "''a__'' @ [CHR 0xE9]" "''a''" "[CHR 0xE9]"] l1
      RE_Some_split(2)[OF RE_latin] by blast
  moreover have l2: "indexed_split (''a__b'' @ [newline]) ''a'' ''b''"
    using RE_Some_split(1)[OF RE_line_break] .
  moreover have "parse_property_key (''a__b'' @ [newline]) = ''a'' @ ''['' @ ''b'' @ '']''"
    using parse_property_key_first_split[of "''a__b'' @ [newline]" "''a''" "''b''"] l2
      RE_Some_split(2)[OF RE_line_break] by blast
  ultimately show ?thesis using a c by simp
qed


text \<open>
  Claim C3 as stated fails: \<open>a__b__c\<close> is \<open>a__b\<close>, two underscores and the trailing
  token \<open>c\<close>, yet the lazy first group stops at the first double underscore and the key
  becomes \<open>a[b__c]\<close>, not \<open>a__b[c]\<close>.
\<close>

theorem parse_property_key_trailing_token_counterexample:
  "indexed_split ''a__b__c'' ''a__b'' ''c'' \<and>
   parse_property_key ''a__b__c'' = ''a[b__c]'' \<and>
   parse_property_key ''a__b__c'' \<noteq> ''a__b[c]''"
  by (simp add: indexed_split_def parse_property_key_def word_char_def newline_def)

section \<open>Value normalisation\<close>



lemma strip_x: "strip ''x'' = ''x''"
  by (simp add: strip_def py_space_def)

lemma key_label: "parse_property_key ''label'' = ''label''"
  by (simp add: parse_property_key_def word_char_def newline_def)

lemma Element_init_keyword:
  assumes "arg_value e = Inr src"
    and "code_context fr = [keyword_call key e]"
  shows "Element_init (blank c) [] [(key, V)] fr =
     ((blank c)\<lparr>lcls := Some (filter (\<lambda>(k, v). \<not> startswith k ''_'') (f_locals fr)),
        properties := Some [(parse_property_key key,
          parse_property (filter (\<lambda>(k, v). \<not> startswith k ''_'') (f_locals fr))
            (parse_property_key key) (Ref V) (Map.empty(Some key \<mapsto> src)))]\<rparr>, None)"
  using assms
  by (simp add: Element_init_def Let_def get_code_arguments_def parse_properties_def blank_def
      keyword_call_def)

lemma key_kind: "parse_property_key ''kind'' = ''kind''"
  by (simp add: parse_property_key_def word_char_def newline_def)

text \<open>
  A value that exposes \<^verbatim>\<open>__name__\<close> is normalised to the string of that name,
  whatever the lexical snapshot and the recovered source text are: the test comes before
  the search for a binding. So constructing with \<^verbatim>\<open>kind=x\<close>, where \<open>x\<close> holds a
  class, stores the class's name and never \<open>{x}\<close>.
\<close>

lemma parse_property_named_identity:
  "(py_name value = Some n \<longrightarrow> parse_property l key value ca = NewStr n) \<and>
   (name_attr X = Some n \<and> code_context fr = [keyword_call ''kind'' (Name ''x'')]
      \<longrightarrow> (\<exists>el. Element_init (blank c) [] [(''kind'', X)] fr = (el, None) \<and>
                properties el = Some [(''kind'', NewStr n)]))"
proof (intro conjI impI)
  assume "py_name value = Some n"
  then show "parse_property l key value ca = NewStr n"
    by (simp add: parse_property_def)
next
  assume a: "name_attr X = Some n \<and> code_context fr = [keyword_call ''kind'' (Name ''x'')]"
  then have "parse_property (filter (\<lambda>(k, v). \<not> startswith k ''_'') (f_locals fr)) ''kind'' (Ref X)
      (Map.empty(Some ''kind'' \<mapsto> NewStr ''x'')) = NewStr n"
    by (simp add: parse_property_def)
  then show "\<exists>el. Element_init (blank c) [] [(''kind'', X)] fr = (el, None) \<and>
      properties el = Some [(''kind'', NewStr n)]"
    using a Element_init_keyword[of "Name ''x''" "NewStr ''x''" fr "''kind''" c X]
    by (simp add: key_kind)
qed

lemma class_is_named:
  "\<exists>el. Element_init (blank button) [] [(''kind'', int_class)]
           \<lparr>f_locals = [(''x'', int_class)], code_context = [keyword_call ''kind'' (Name ''x'')]\<rparr>
         = (el, None) \<and> properties el = Some [(''kind'', NewStr ''int'')]"
  using parse_property_named_identity[where X = int_class and n = "''int''" and c = button
      and fr = "\<lparr>f_locals = [(''x'', int_class)], code_context = [keyword_call ''kind'' (Name ''x'')]\<rparr>"]
  by (simp add: int_class_def)

text \<open>
  Claim C2, at the input on which the code departs from it. The claim counts enumeration
  members among the values that are normalised to their identity name and never bound,
  and so does the comment at the head of \<^verbatim>\<open>_parse_property\<close>. A member of an
  \<^verbatim>\<open>Enum\<close> class exposes no \<^verbatim>\<open>__name__\<close>, so the first test does not hold for it:
  constructing with \<^verbatim>\<open>kind=x\<close>, where \<open>x\<close> holds the member, stores \<open>{x}\<close>.
\<close>

theorem enum_member_is_bound:
  "py_name (Ref enum_member) = None \<and>
   (\<exists>el. Element_init (blank button) [] [(''kind'', enum_member)]
           \<lparr>f_locals = [(''x'', enum_member)], code_context = [keyword_call ''kind'' (Name ''x'')]\<rparr>
         = (el, None) \<and> properties el = Some [(''kind'', NewStr ''{x}'')])"
  by (simp add: Element_init_def parse_properties_def get_code_arguments_def Let_def blank_def
      button_def keyword_call_def parse_property_def enum_member_def key_kind strip_x)

section \<open>Updating an element\<close>

lemma map_of_dict_update_other:
  "k \<notin> fst ` set kvs \<Longrightarrow> map_of (dict_update d kvs) k = map_of d k"
  by (induction kvs arbitrary: d) (auto simp: update_conv')

lemma map_of_dict_update_in:
  "distinct (map fst kvs) \<Longrightarrow> (k, v) \<in> set kvs \<Longrightarrow> map_of (dict_update d kvs) k = Some v"
proof (induction kvs arbitrary: d)
  case Nil
  then show ?case by simp
next
  case (Cons kv kvs)
  obtain k0 v0 where kv: "kv = (k0, v0)" by (cases kv)
  show ?case
  proof (cases "(k, v) \<in> set kvs")
    case True
    with Cons kv show ?thesis by simp
  next
    case False
    with Cons.prems kv have "k0 = k" "v0 = v" "k \<notin> fst ` set kvs" by auto
    then show ?thesis using kv
      by (simp add: map_of_dict_update_other update_conv')
  qed
qed

lemma parse_loop_step_map_of:
  "map_of (AList.update k' x (if k \<noteq> k' then AList.delete k ps else ps)) j =
     (if j = k' then Some x else if j = k then None else map_of ps j)"
  by (auto simp: update_conv' delete_conv')

lemma parse_loop_untouched:
  "j \<notin> set ks \<Longrightarrow> j \<notin> parse_property_key ` set ks \<Longrightarrow>
     map_of (fst (parse_loop l ca ks ps)) j = map_of ps j"
proof (induction ks arbitrary: ps)
  case Nil
  then show ?case by simp
next
  case (Cons k ks)
  show ?case
  proof (cases "map_of ps k")
    case None
    then show ?thesis by simp
  next
    case (Some v)
    let ?ps = "AList.update (parse_property_key k) (parse_property l (parse_property_key k) v ca)
        (if k \<noteq> parse_property_key k then AList.delete k ps else ps)"
    have "map_of (fst (parse_loop l ca ks ?ps)) j = map_of ?ps j"
      using Cons.IH Cons.prems by simp
    also have "\<dots> = map_of ps j"
      using Cons.prems by (simp only: parse_loop_step_map_of) auto
    finally show ?thesis using Some by (simp add: Let_def)
  qed
qed

lemma parse_loop_no_error:
  "distinct ks \<Longrightarrow> set ks \<subseteq> dom (map_of ps) \<Longrightarrow> snd (parse_loop l ca ks ps) = None"
proof (induction ks arbitrary: ps)
  case Nil
  then show ?case by simp
next
  case (Cons k ks)
  from Cons.prems obtain v where v: "map_of ps k = Some v" by auto
  let ?ps = "AList.update (parse_property_key k) (parse_property l (parse_property_key k) v ca)
      (if k \<noteq> parse_property_key k then AList.delete k ps else ps)"
  have "set ks \<subseteq> dom (map_of ?ps)"
  proof
    fix j assume j: "j \<in> set ks"
    then have "j \<noteq> k" "j \<in> dom (map_of ps)" using Cons.prems by auto
    then show "j \<in> dom (map_of ?ps)"
      unfolding dom_def by (simp only: parse_loop_step_map_of) auto
  qed
  then have "snd (parse_loop l ca ks ?ps) = None"
    using Cons.IH Cons.prems by simp
  then show ?case using v by (simp add: Let_def)
qed

lemma parse_loop_value:
  "no_clash ks \<Longrightarrow> distinct ks \<Longrightarrow> k \<in> set ks \<Longrightarrow> map_of ps k = Some v \<Longrightarrow>
   set ks \<subseteq> dom (map_of ps) \<Longrightarrow>
     map_of (fst (parse_loop l ca ks ps)) (parse_property_key k) =
       Some (parse_property l (parse_property_key k) v ca)"
proof (induction ks arbitrary: ps)
  case Nil
  then show ?case by simp
next
  case (Cons k0 ks)
  from Cons.prems obtain v0 where v0: "map_of ps k0 = Some v0" by auto
  let ?ps = "AList.update (parse_property_key k0) (parse_property l (parse_property_key k0) v0 ca)
      (if k0 \<noteq> parse_property_key k0 then AList.delete k0 ps else ps)"
  have step: "parse_loop l ca (k0 # ks) ps = parse_loop l ca ks ?ps"
    using v0 by (simp add: Let_def)
  have nc: "no_clash ks" using Cons.prems(1) by (auto simp: no_clash_def)
  have keep: "map_of ?ps j = map_of ps j" if "j \<in> set ks" for j
  proof -
    from that Cons.prems(1,2) have "j \<noteq> k0" "parse_property_key k0 \<noteq> j"
      by (auto simp: no_clash_def)
    then show ?thesis by (simp only: parse_loop_step_map_of) auto
  qed
  show ?case
  proof (cases "k = k0")
    case True
    with Cons.prems v0 have vv: "v0 = v" by simp
    have "parse_property_key k0 \<notin> set ks" "parse_property_key k0 \<notin> parse_property_key ` set ks"
      using Cons.prems(1,2) by (auto simp: no_clash_def)
    then have "map_of (fst (parse_loop l ca ks ?ps)) (parse_property_key k0) =
        map_of ?ps (parse_property_key k0)"
      by (rule parse_loop_untouched)
    then show ?thesis using step True vv by (simp only: parse_loop_step_map_of) simp
  next
    case False
    with Cons.prems have kin: "k \<in> set ks" by simp
    have "set ks \<subseteq> dom (map_of ?ps)"
      using keep Cons.prems(5) by (auto simp: dom_def)
    moreover have "map_of ?ps k = Some v" using keep[OF kin] Cons.prems(4) by simp
    ultimately show ?thesis
      using Cons.IH[OF nc _ kin, of ?ps] Cons.prems(2) step by simp
  qed
qed


lemma update_absent_key:
  "k \<notin> fst ` set al \<Longrightarrow> AList.update k v al = al @ [(k, v)]"
  by (induction al) auto

lemma no_clash_single: "no_clash [k]"
  by (simp add: no_clash_def)

lemma key_width: "parse_property_key ''width'' = ''width''"
  by (simp add: parse_property_key_def word_char_def newline_def)

text \<open>
  Claim C5 (as amended). \<^verbatim>\<open>update\<close> merges the given properties into the stored map
  (the keyword arguments, and a positional argument under a non-empty default-property name
  that no keyword repeats), recovers the source text from the update call site, and searches
  bindings in the lexical snapshot taken at construction: the local variables of the update
  call site are not read. Normalisation runs over the updated keys only; every stored
  property whose key is neither an updated key nor the normalised form of one is unchanged.
\<close>

theorem update_uses_construction_snapshot:
  assumes ps: "properties self = Some ps" and l: "lcls self = Some l"
    and ca: "get_code_arguments (cls_DEFAULT_PROPERTY (cls self)) fr = Inr ca"
    and args: "args = [] \<or>
        (cls_DEFAULT_PROPERTY (cls self) \<noteq> [] \<and> cls_DEFAULT_PROPERTY (cls self) \<notin> fst ` set kwargs)"
    and kw: "kw = (case args of [] \<Rightarrow> kwargs | a # _ \<Rightarrow> kwargs @ [(cls_DEFAULT_PROPERTY (cls self), a)])"
    and dist: "distinct (map fst kwargs)" and nc: "no_clash (map fst kw)"
  shows "\<exists>ps'. update self args kwargs fr = (self\<lparr>properties := Some ps'\<rparr>, None) \<and>
           (\<forall>(k, v)\<in>set kw. map_of ps' (parse_property_key k) =
               Some (parse_property l (parse_property_key k) (Ref v) ca)) \<and>
           (\<forall>j. j \<notin> fst ` set kw \<and> j \<notin> parse_property_key ` fst ` set kw
               \<longrightarrow> map_of ps' j = map_of ps j) \<and>
           update self args kwargs (fr\<lparr>f_locals := other\<rparr>) = update self args kwargs fr"
proof -
  let ?dp = "cls_DEFAULT_PROPERTY (cls self)"
  let ?ref = "map (\<lambda>(k, v). (k, Ref v)) kw"
  let ?ps1 = "dict_update ps ?ref"
  let ?ks = "map fst kw"
  have eff: "(case args of a # _ \<Rightarrow> AList.update ?dp a kwargs | [] \<Rightarrow> kwargs) = kw"
    using args kw by (cases args) (auto simp: update_absent_key)
  have dkw: "distinct ?ks"
    using args kw dist by (cases args) auto
  have fst_ref: "map fst ?ref = ?ks" by (induction kw) auto
  have dref: "distinct (map fst ?ref)" by (simp only: fst_ref dkw)
  have stored: "map_of ?ps1 k = Some (Ref v)" if "(k, v) \<in> set kw" for k v
  proof -
    from that have "(k, Ref v) \<in> set ?ref" by force
    then show ?thesis by (rule map_of_dict_update_in[OF dref])
  qed
  have dom1: "set ?ks \<subseteq> dom (map_of ?ps1)"
  proof
    fix k assume "k \<in> set ?ks"
    then obtain v where "(k, v) \<in> set kw" by auto
    then show "k \<in> dom (map_of ?ps1)" using stored by auto
  qed
  obtain ps' err where loop: "parse_loop l ca ?ks ?ps1 = (ps', err)"
    by (cases "parse_loop l ca ?ks ?ps1")
  have err: "err = None"
    using parse_loop_no_error[OF dkw dom1, of l ca] loop by simp
  have upd: "update self args kwargs fr = (self\<lparr>properties := Some ps'\<rparr>, None)"
    using ps l ca eff loop err
    by (simp add: update_def Let_def parse_properties_def)
  have cafr: "get_code_arguments d (fr\<lparr>f_locals := other\<rparr>) = get_code_arguments d fr" for d
    by (simp add: get_code_arguments_def)
  have indep: "update self args kwargs (fr\<lparr>f_locals := other\<rparr>) = update self args kwargs fr"
    unfolding update_def cafr by (rule refl)
  have vals: "\<forall>(k, v)\<in>set kw. map_of ps' (parse_property_key k) =
      Some (parse_property l (parse_property_key k) (Ref v) ca)"
  proof (intro ballI, clarify)
    fix k v assume kv: "(k, v) \<in> set kw"
    then have "map_of ?ps1 k = Some (Ref v)" by (rule stored)
    moreover have "k \<in> set ?ks" using kv by force
    ultimately show "map_of ps' (parse_property_key k) =
        Some (parse_property l (parse_property_key k) (Ref v) ca)"
      using parse_loop_value[OF nc dkw _ _ dom1, of k "Ref v" l ca] loop by simp
  qed
  have others: "\<forall>j. j \<notin> fst ` set kw \<and> j \<notin> parse_property_key ` fst ` set kw
      \<longrightarrow> map_of ps' j = map_of ps j"
  proof (intro allI impI)
    fix j assume j: "j \<notin> fst ` set kw \<and> j \<notin> parse_property_key ` fst ` set kw"
    then have "map_of (fst (parse_loop l ca ?ks ?ps1)) j = map_of ?ps1 j"
      by (intro parse_loop_untouched) auto
    moreover have "map_of ?ps1 j = map_of ps j"
      using j fst_ref by (intro map_of_dict_update_other) (metis list.set_map)
    ultimately show "map_of ps' j = map_of ps j" using loop by simp
  qed
  from upd vals others indep show ?thesis by blast
qed


theorem update_uses_construction_snapshot_witness:
  "\<exists>ps'. update styled_button [] [(''label'', five)] site_no_locals =
           (styled_button\<lparr>properties := Some ps'\<rparr>, None) \<and>
         map_of ps' ''label'' = Some (NewStr ''{x}'') \<and>
         map_of ps' ''width'' = Some (NewStr ''100'')"
proof -
  let ?ca = "Map.empty(Some ''label'' \<mapsto> NewStr ''x'')"
  have ca: "get_code_arguments (cls_DEFAULT_PROPERTY (cls styled_button)) site_no_locals = Inr ?ca"
    by (simp add: get_code_arguments_def site_no_locals_def keyword_call_def styled_button_def
        button_def)
  have val: "parse_property [(''x'', five)] ''label'' (Ref five) ?ca = NewStr ''{x}''"
    by (simp add: parse_property_def five_def strip_x)
  have w: "''width'' \<notin> fst ` set [(''label'', five)] \<and>
      ''width'' \<notin> parse_property_key ` fst ` set [(''label'', five)]"
    by (simp add: key_label)
  from update_uses_construction_snapshot[of styled_button "[(''width'', NewStr ''100'')]"
      "[(''x'', five)]" site_no_locals ?ca "[]" "[(''label'', five)]" "[(''label'', five)]" "[]"]
  obtain ps' where
    u: "update styled_button [] [(''label'', five)] site_no_locals =
          (styled_button\<lparr>properties := Some ps'\<rparr>, None)"
    and v: "\<forall>(k, v)\<in>set [(''label'', five)]. map_of ps' (parse_property_key k) =
          Some (parse_property [(''x'', five)] (parse_property_key k) (Ref v) ?ca)"
    and o: "\<forall>j. j \<notin> fst ` set [(''label'', five)] \<and>
          j \<notin> parse_property_key ` fst ` set [(''label'', five)]
          \<longrightarrow> map_of ps' j = map_of [(''width'', NewStr ''100'')] j"
    using ca no_clash_single by (auto simp: styled_button_def)
  from v have "map_of ps' ''label'' = Some (NewStr ''{x}'')"
    by (simp add: key_label val)
  moreover from o w have "map_of ps' ''width'' = Some (NewStr ''100'')"
    by (metis map_of_Cons_code(2))
  ultimately show ?thesis using u by blast
qed

text \<open>
  Claim C5 as stated fails. An element built at a site without local variables and then
  updated with \<^verbatim>\<open>label=x\<close> at a site where \<open>x\<close> is a local variable stores the
  string of the value, not \<open>{x}\<close>, which construction at that same site stores. And the
  merge is not the one of construction: with a positional argument and a keyword of the
  default property's name, construction keeps the keyword's value and \<^verbatim>\<open>update\<close> the
  positional one.
\<close>

theorem update_call_site_locals_counterexample:
  "(\<exists>el el'. Element_init (blank button) [] [] \<lparr>f_locals = [], code_context = [bare_call]\<rparr> = (el, None) \<and>
      update el [] [(''label'', five)] site_x = (el', None) \<and>
      properties el' = Some [(''label'', NewStr ''5'')]) \<and>
   (\<exists>el. Element_init (blank button) [] [(''label'', five)] site_x = (el, None) \<and>
      properties el = Some [(''label'', NewStr ''{x}'')]) \<and>
   (\<exists>el. Element_init (blank button) [hello] [(''label'', five)] site_positional = (el, None) \<and>
      properties el = Some [(''label'', NewStr ''5'')]) \<and>
   (\<exists>el el'. Element_init (blank button) [] [] \<lparr>f_locals = [], code_context = [bare_call]\<rparr> = (el, None) \<and>
      update el [hello] [(''label'', five)] site_positional = (el', None) \<and>
      properties el' = Some [(''label'', Ref hello)])"
  by (simp add: Element_init_def update_def parse_properties_def get_code_arguments_def Let_def
      blank_def button_def bare_call_def site_x_def site_positional_def keyword_call_def
      parse_property_def five_def hello_def hello_literal_def key_label strip_x)

section \<open>Rendering a control\<close>

lemma startswith_iff: "startswith s p \<longleftrightarrow> (\<exists>q. s = p @ q)"
  by (induction s p rule: startswith.induct) auto

lemma str_in_iff: "str_in sub s \<longleftrightarrow> (\<exists>p q. s = p @ sub @ q)"
proof (induction s)
  case Nil
  then show ?case by auto
next
  case (Cons c cs)
  show ?case
  proof
    assume "str_in sub (c # cs)"
    then consider "startswith (c # cs) sub" | "str_in sub cs" by auto
    then show "\<exists>p q. c # cs = p @ sub @ q"
    proof cases
      case 1
      then obtain q where "c # cs = sub @ q" by (auto simp: startswith_iff)
      then have "c # cs = [] @ sub @ q" by simp
      then show ?thesis by blast
    next
      case 2
      with Cons.IH obtain p q where "cs = p @ sub @ q" by auto
      then have "c # cs = (c # p) @ sub @ q" by simp
      then show ?thesis by blast
    qed
  next
    assume "\<exists>p q. c # cs = p @ sub @ q"
    then obtain p q where pq: "c # cs = p @ sub @ q" by auto
    show "str_in sub (c # cs)"
    proof (cases p)
      case Nil
      with pq have "startswith (c # cs) sub" by (auto simp: startswith_iff)
      then show ?thesis by simp
    next
      case (Cons d p')
      with pq have "cs = p' @ sub @ q" by simp
      with Cons.IH have "str_in sub cs" by blast
      then show ?thesis by simp
    qed
  qed
qed

text \<open>
  Claim C7 (as amended). A control renders as \<open><div>\<close>, the fragment,
  \<open></tagName></div>\<close> when the factory fragment contains the text \<open><tagName\<close> and
  does not contain the text \<open></tagName\<close>, and as \<open><div>\<close>, the fragment,
  \<open></div>\<close> in every other case. Both tests are plain substring tests: a longer tag
  name that begins with the tag name counts in each of them.
\<close>

theorem Control_render_synthesizes_close:
  assumes "h a = Some self" and "base (cls self) = Control"
    and "properties self = Some ps"
    and "create_element (cls_ELEMENT_NAME (cls self)) ps = Inr (frag, tag)"
  shows "render (Suc n) create_element h a =
     Inr (NewStr
       (if (\<exists>p q. frag = p @ (''<'' @ tag) @ q) \<and> \<not> (\<exists>p q. frag = p @ (''</'' @ tag) @ q)
        then ''<div>'' @ frag @ ''</'' @ tag @ ''></div>''
        else ''<div>'' @ frag @ ''</div>''))"
proof -
  have "render (Suc n) create_element h a = Control_render create_element self"
    using assms(1,2) by simp
  also have "\<dots> = Inr (NewStr
       (if str_in (''<'' @ tag) frag \<and> \<not> str_in (''</'' @ tag) frag
        then ''<div>'' @ frag @ ''</'' @ tag @ ''></div>''
        else ''<div>'' @ frag @ ''</div>''))"
    using assms(3,4) by (simp add: Control_render_def)
  finally show ?thesis
    unfolding str_in_iff by simp
qed

theorem Control_render_synthesizes_close_witness:
  "render 1 open_factory (Map.empty(0 \<mapsto> input_control)) 0 =
     Inr (NewStr ''<div><input type=text></input></div>'') \<and>
   render 1 closed_factory (Map.empty(0 \<mapsto> input_control)) 0 =
     Inr (NewStr ''<div><b>x</b></div>'')"
proof -
  let ?h = "Map.empty(0 \<mapsto> input_control)"
  have a: "\<exists>p q. ''<input type=text>'' = p @ (''<'' @ ''input'') @ q"
    using str_in_iff[of "''<'' @ ''input''" "''<input type=text>''"] by simp
  have b: "\<not> (\<exists>p q. ''<input type=text>'' = p @ (''</'' @ ''input'') @ q)"
    using str_in_iff[of "''</'' @ ''input''" "''<input type=text>''"] by simp
  have c: "\<exists>p q. ''<b>x</b>'' = p @ (''</'' @ ''b'') @ q"
    using str_in_iff[of "''</'' @ ''b''" "''<b>x</b>''"] by simp
  have 1: "render (Suc 0) open_factory ?h 0 = Inr (NewStr ''<div><input type=text></input></div>'')"
    using Control_render_synthesizes_close[of ?h 0 input_control "[]" open_factory
        "''<input type=text>''" "''input''" 0]
    using a b by (simp add: input_control_def open_factory_def)
  have 2: "render (Suc 0) closed_factory ?h 0 = Inr (NewStr ''<div><b>x</b></div>'')"
    using Control_render_synthesizes_close[of ?h 0 input_control "[]" closed_factory
        "''<b>x</b>''" "''b''" 0]
    using c by (simp add: input_control_def closed_factory_def)
  from 1 2 show ?thesis by simp
qed

text \<open>
  Claim C7 as stated fails in both directions. The fragment \<open><inputs>\<close> holds no
  opening tag for \<open>input\<close>, so the spec's rule wraps it in the \<open>div\<close> alone, yet the
  code appends \<open></input>\<close>. The fragment \<open><input></inputs>\<close> opens \<open>input\<close> and
  never closes it, so the spec's rule appends \<open></input>\<close>, yet the code does not.
\<close>

theorem Control_render_substring_counterexample:
  "\<not> spec_opening_tag ''input'' ''<inputs>'' \<and>
   spec_Leaf_render ''<inputs>'' ''input'' = ''<div><inputs></div>'' \<and>
   render 1 inputs_factory (Map.empty(0 \<mapsto> input_control)) 0 =
     Inr (NewStr ''<div><inputs></input></div>'') \<and>
   spec_opening_tag ''input'' ''<input></inputs>'' \<and>
   \<not> spec_closing_tag ''input'' ''<input></inputs>'' \<and>
   spec_Leaf_render ''<input></inputs>'' ''input'' = ''<div><input></inputs></input></div>'' \<and>
   render 1 other_close_factory (Map.empty(0 \<mapsto> input_control)) 0 =
     Inr (NewStr ''<div><input></inputs></div>'')"
  by (simp add: spec_Leaf_render_def spec_opening_tag_def spec_closing_tag_def tag_here_def
      tag_name_end_def py_space_def Control_render_def input_control_def inputs_factory_def
      other_close_factory_def)

section \<open>Rendering raw markup\<close>

lemma sequence_Inr: "sequence (map Inr vs) = Inr vs"
  by (induction vs) auto

lemma text_with_child_heap:
  "heap text_with_child 0 = Some \<lparr>cls = html, lcls = Some [], properties = Some [],
      children = Some [1], ELEMENT_NAME = Some None, content = Some (Ref text_obj)\<rparr>"
  "heap text_with_child 1 = Some \<lparr>cls = html, lcls = Some [], properties = Some [],
      children = Some [], ELEMENT_NAME = Some (Some (Ref h1_obj)), content = Some (Ref title_obj)\<rparr>"
  "blocks text_with_child = []"
  by (simp_all add: text_with_child_def construct_def new_def init_def html_init_def Block_init_def
      Element_init_def parse_properties_def get_code_arguments_def enter_def exit_def add_def
      init_state_def html_def blank_def peek_def push_def pop_def site_h1_def site_text_def
      none_obj_def h1_obj_def Let_def)

lemma titled_p_heap:
  "heap titled_p 0 = Some \<lparr>cls = html, lcls = Some [], properties = Some [(''title'', Ref amp_obj)],
      children = Some [], ELEMENT_NAME = Some (Some (Ref p_obj)), content = Some (Ref text_obj)\<rparr>"
  by (simp add: titled_p_def construct_def new_def init_def html_init_def Block_init_def
      Element_init_def parse_properties_def get_code_arguments_def
      init_state_def html_def blank_def peek_def site_p_def parse_property_def
      parse_property_key_def word_char_def newline_def
      p_obj_def amp_obj_def Let_def)

lemma join_concat:
  "join sep xs = (case xs of [] \<Rightarrow> [] | x # rest \<Rightarrow> x @ concat (map (\<lambda>y. sep @ y) rest))"
  by (induction sep xs rule: join.induct) simp_all

lemma join_map_concat:
  "xs \<noteq> [] \<Longrightarrow> sep @ join sep (map g xs) = concat (map (\<lambda>x. sep @ g x) xs)"
proof (induction xs)
  case Nil
  then show ?case by simp
next
  case (Cons x xs)
  show ?case
  proof (cases xs)
    case Nil
    then show ?thesis by simp
  next
    case (Cons y ys)
    with Cons.IH have "sep @ join sep (map g xs) = concat (map (\<lambda>x. sep @ g x) xs)" by simp
    then show ?thesis using Cons by simp
  qed
qed

lemma html_attrs_concat:
  "html_attrs ps =
     concat (map (\<lambda>(k, v). '' '' @ k @ ''='' @ [CHR 0x22] @ py_str v @ [CHR 0x22]) ps)"
proof (cases "ps = []")
  case True
  then show ?thesis by (simp add: html_attrs_def)
next
  case False
  have "html_attrs ps =
      '' '' @ join '' '' (map (\<lambda>(k, v). k @ ''='' @ [CHR 0x22] @ py_str v @ [CHR 0x22]) ps)"
    using False by (simp add: html_attrs_def dquote_def)
  also have "\<dots> = concat (map (\<lambda>x. '' '' @ (\<lambda>(k, v). k @ ''='' @ [CHR 0x22] @ py_str v @ [CHR 0x22]) x) ps)"
    using False by (rule join_map_concat)
  also have "\<dots> = concat (map (\<lambda>(k, v). '' '' @ k @ ''='' @ [CHR 0x22] @ py_str v @ [CHR 0x22]) ps)"
    by (rule arg_cong[where f = concat]) (auto intro!: map_cong)
  finally show ?thesis .
qed

lemma div_with_children_heap:
  "heap div_with_children 0 = Some \<lparr>cls = html, lcls = Some [],
      properties = Some [(''id'', Ref a_obj), (''title'', Ref amp_obj)],
      children = Some [1, 2], ELEMENT_NAME = Some (Some (Ref div_obj)), content = Some (NewStr [])\<rparr>"
  "heap div_with_children 1 = Some \<lparr>cls = html, lcls = Some [], properties = Some [],
      children = Some [], ELEMENT_NAME = Some (Some (Ref h1_obj)), content = Some (Ref title_obj)\<rparr>"
  "heap div_with_children 2 = Some \<lparr>cls = html, lcls = Some [], properties = Some [],
      children = Some [], ELEMENT_NAME = Some None, content = Some (Ref text_obj)\<rparr>"
  by (simp_all add: div_with_children_def construct_def new_def init_def html_init_def Block_init_def
      Element_init_def parse_properties_def get_code_arguments_def enter_def exit_def add_def
      init_state_def html_def blank_def peek_def push_def pop_def site_h1_def site_text_def
      site_div_def parse_property_def parse_property_key_def word_char_def newline_def
      none_obj_def h1_obj_def div_obj_def a_obj_def amp_obj_def Let_def)

text \<open>
  Claim C6. An \<^verbatim>\<open>html\<close> element with a tag name renders as \<open><tag\<close>, then for each
  property in turn a space and \<open>key="value"\<close> with the value's string inserted as it is,
  then \<open>>\<close>, the content, the renderings of all its children in order with a line break
  between two neighbours, and \<open></tag>\<close>. With no tag name (Python's \<^verbatim>\<open>None\<close> or a
  falsy first argument) it returns the content alone: its children are not rendered,
  whatever they are. So tag \<open>h1\<close> with content \<open>Title\<close> and no properties renders
  \<open><h1>Title</h1>\<close>, and a text node with content \<open>text\<close> renders \<open>text\<close> although
  a child was added.
\<close>

theorem html_render_markup:
  "(h a = Some self \<and> base (cls self) = Html \<and> ELEMENT_NAME self = Some (Some tag) \<and> py_bool tag \<and>
    properties self = Some ps \<and> content self = Some c \<and> children self = Some cs \<and>
    map (render n f h) cs = map Inr vs \<and> list_all is_str vs
      \<longrightarrow> render (Suc n) f h a =
           Inr (NewStr (''<'' @ py_str tag @
              concat (map (\<lambda>(k, v). '' '' @ k @ ''='' @ [CHR 0x22] @ py_str v @ [CHR 0x22]) ps)
              @ ''>'' @ py_str c @
              (case vs of [] \<Rightarrow> []
               | v # rest \<Rightarrow> py_str v @ concat (map (\<lambda>w. CHR 0x0A # py_str w) rest))
              @ ''</'' @ py_str tag @ ''>''))) \<and>
   (h a = Some self \<and> base (cls self) = Html \<and>
    (ELEMENT_NAME self = Some None \<or> (\<exists>t. ELEMENT_NAME self = Some (Some t) \<and> \<not> py_bool t)) \<and>
    content self = Some c
      \<longrightarrow> render (Suc n) f h a = Inr c)"
proof (intro conjI impI)
  assume a: "h a = Some self \<and> base (cls self) = Html \<and> ELEMENT_NAME self = Some (Some tag) \<and>
    py_bool tag \<and> properties self = Some ps \<and> content self = Some c \<and> children self = Some cs \<and>
    map (render n f h) cs = map Inr vs \<and> list_all is_str vs"
  have j: "join [newline] (map py_str vs) =
      (case vs of [] \<Rightarrow> [] | v # rest \<Rightarrow> py_str v @ concat (map (\<lambda>w. CHR 0x0A # py_str w) rest))"
    by (cases vs) (simp_all add: join_concat newline_def comp_def)
  from a have rc: "render_children (render n f h) self = Inr (join [newline] (map py_str vs))"
    by (simp add: render_children_def sequence_Inr join_rendered_def)
  have "render (Suc n) f h a = html_render (render n f h) self"
    using a by simp
  also have "\<dots> = Inr (NewStr (''<'' @ py_str tag @ html_attrs ps @ ''>'' @ py_str c
      @ join [newline] (map py_str vs) @ ''</'' @ py_str tag @ ''>''))"
    using a rc by (simp add: html_render_def self_ELEMENT_NAME_def)
  finally show "render (Suc n) f h a =
      Inr (NewStr (''<'' @ py_str tag @
         concat (map (\<lambda>(k, v). '' '' @ k @ ''='' @ [CHR 0x22] @ py_str v @ [CHR 0x22]) ps)
         @ ''>'' @ py_str c @
         (case vs of [] \<Rightarrow> []
          | v # rest \<Rightarrow> py_str v @ concat (map (\<lambda>w. CHR 0x0A # py_str w) rest))
         @ ''</'' @ py_str tag @ ''>''))"
    by (simp only: j html_attrs_concat)
next
  assume a: "h a = Some self \<and> base (cls self) = Html \<and>
    (ELEMENT_NAME self = Some None \<or> (\<exists>t. ELEMENT_NAME self = Some (Some t) \<and> \<not> py_bool t)) \<and>
    content self = Some c"
  then have "render (Suc n) f h a = html_render (render n f h) self"
    by simp
  also have "\<dots> = Inr c"
    using a by (auto simp: html_render_def self_ELEMENT_NAME_def)
  finally show "render (Suc n) f h a = Inr c" .
qed

theorem html_render_markup_witness:
  "render 1 no_factory (heap text_with_child) 1 = Inr (NewStr ''<h1>Title</h1>'') \<and>
   children_of text_with_child 0 = [1] \<and>
   render 2 no_factory (heap text_with_child) 0 = Inr (Ref text_obj) \<and>
   py_str (Ref text_obj) = ''text'' \<and>
   render 1 no_factory (heap titled_p) 0 =
     Inr (NewStr (''<p title='' @ [CHR 0x22] @ ''a<&b'' @ [CHR 0x22] @ ''>text</p>'')) \<and>
   render 2 no_factory (heap div_with_children) 0 =
     Inr (NewStr (''<div id='' @ [CHR 0x22] @ ''a'' @ [CHR 0x22] @ '' title='' @ [CHR 0x22] @ ''a<&b''
        @ [CHR 0x22] @ ''><h1>Title</h1>'' @ [CHR 0x0A] @ ''text</div>''))"
proof -
  let ?h = "heap text_with_child"
  let ?d = "heap div_with_children"
  have 1: "render (Suc 0) no_factory ?h 1 = Inr (NewStr ''<h1>Title</h1>'')"
    using html_render_markup[of ?h 1 _ "Ref h1_obj" "[]" "Ref title_obj" "[]" 0 no_factory "[]"]
      text_with_child_heap(2)
    by (simp add: html_def h1_obj_def title_obj_def)
  have 2: "render (Suc (Suc 0)) no_factory ?h 0 = Inr (Ref text_obj)"
    using html_render_markup[of ?h 0 _ _ _ "Ref text_obj" _ "Suc 0" no_factory] text_with_child_heap(1)
    by (simp add: html_def)
  have 3: "children_of text_with_child 0 = [1]"
    using text_with_child_heap(1) by (simp add: children_of_def)
  have 4: "render (Suc 0) no_factory (heap titled_p) 0 =
      Inr (NewStr (''<p title='' @ [CHR 0x22] @ ''a<&b'' @ [CHR 0x22] @ ''>text</p>''))"
    using html_render_markup[of "heap titled_p" 0 _ "Ref p_obj" "[(''title'', Ref amp_obj)]"
        "Ref text_obj" "[]" 0 no_factory "[]"] titled_p_heap
    by (simp add: html_def p_obj_def amp_obj_def text_obj_def)
  have kids: "map (render (Suc 0) no_factory ?d) [1, 2] =
      map Inr [NewStr ''<h1>Title</h1>'', Ref text_obj]"
    using html_render_markup[of ?d 1 _ "Ref h1_obj" "[]" "Ref title_obj" "[]" 0 no_factory "[]"]
      html_render_markup[of ?d 2 _ _ _ "Ref text_obj" _ 0 no_factory]
      div_with_children_heap(2,3)
    by (simp add: html_def h1_obj_def title_obj_def)
  have 5: "render (Suc (Suc 0)) no_factory ?d 0 =
      Inr (NewStr (''<div id='' @ [CHR 0x22] @ ''a'' @ [CHR 0x22] @ '' title='' @ [CHR 0x22] @ ''a<&b''
        @ [CHR 0x22] @ ''><h1>Title</h1>'' @ [CHR 0x0A] @ ''text</div>''))"
    using html_render_markup[of ?d 0 _ "Ref div_obj"
        "[(''id'', Ref a_obj), (''title'', Ref amp_obj)]" "NewStr []" "[1, 2]" "Suc 0" no_factory
        "[NewStr ''<h1>Title</h1>'', Ref text_obj]"]
      div_with_children_heap(1) kids
    by (simp add: html_def div_obj_def a_obj_def amp_obj_def text_obj_def)
  from 1 2 3 4 5 show ?thesis by (simp add: text_obj_def numeral_2_eq_2)
qed

section \<open>Adding children\<close>

lemma add_loop_append: "\<exists>new. add_loop cs es = cs @ new \<and> distinct new \<and> set new = set es - set cs"
proof (induction es arbitrary: cs)
  case Nil
  then show ?case by simp
next
  case (Cons e es)
  show ?case
  proof (cases "e \<in> set cs")
    case True
    with Cons.IH[of cs] show ?thesis by auto
  next
    case False
    from Cons.IH[of "cs @ [e]"] obtain new where
      n: "add_loop (cs @ [e]) es = (cs @ [e]) @ new" "distinct new" "set new = set es - set (cs @ [e])"
      by blast
    have "add_loop cs (e # es) = cs @ (e # new)" using False n(1) by simp
    moreover have "distinct (e # new)" using n(2,3) by auto
    moreover have "set (e # new) = set (e # es) - set cs" using n(3) False by auto
    ultimately show ?thesis by blast
  qed
qed

lemma add_loop_present: "set es \<subseteq> set cs \<Longrightarrow> add_loop cs es = cs"
  by (induction es arbitrary: cs) auto

lemma set_add_loop: "set (add_loop cs es) = set cs \<union> set es"
  by (induction es arbitrary: cs) auto

lemma add_loop_idem: "add_loop (add_loop cs es) es = add_loop cs es"
  by (rule add_loop_present) (simp add: set_add_loop)

lemma add_loop_distinct:
  "distinct es \<Longrightarrow> add_loop cs es = cs @ filter (\<lambda>e. e \<notin> set cs) es"
proof (induction es arbitrary: cs)
  case Nil
  then show ?case by simp
next
  case (Cons e es)
  show ?case
  proof (cases "e \<in> set cs")
    case True
    with Cons show ?thesis by simp
  next
    case False
    have "filter (\<lambda>x. x \<notin> set (cs @ [e])) es = filter (\<lambda>x. x \<notin> set cs) es"
      using Cons.prems by (intro filter_cong) auto
    with Cons False show ?thesis by simp
  qed
qed

lemma add_children:
  assumes "heap s c = Some el" "base (cls el) \<noteq> Control" "children el = Some cs"
  shows "add s c es = (s\<lparr>heap := (heap s)(c \<mapsto> el\<lparr>children := Some (add_loop cs es)\<rparr>)\<rparr>, Inr c)"
proof (cases es)
  case Nil
  have "el\<lparr>children := Some cs\<rparr> = el" using assms(3) by simp
  then have "(heap s)(c \<mapsto> el\<lparr>children := Some cs\<rparr>) = heap s"
    using assms(1) by (simp add: map_upd_triv)
  then show ?thesis using assms Nil by (simp add: add_def)
next
  case (Cons e es')
  then show ?thesis using assms by (simp add: add_def)
qed

text \<open>
  Claim C8. \<^verbatim>\<open>add\<close> appends each given element to the child list unless it is already
  there (by identity), keeps the children it had in place, is idempotent, and returns the
  container itself. On a container without children and distinct \<open>a\<close>, \<open>b\<close>:
  \<^verbatim>\<open>c.add(a, b)\<close> and then \<^verbatim>\<open>c.add(a)\<close> leave the child list \<open>[a, b]\<close>.
\<close>

theorem add_appends_unless_present:
  assumes "heap s c = Some el" and "base (cls el) \<noteq> Control" and "children el = Some cs"
  shows "\<exists>s1 new. add s c es = (s1, Inr c) \<and>
           children_of s1 c = cs @ new \<and> distinct new \<and> set new = set es - set cs \<and>
           (distinct es \<longrightarrow> new = filter (\<lambda>e. e \<notin> set cs) es) \<and>
           add s1 c es = (s1, Inr c) \<and>
           (cs = [] \<and> a \<noteq> b \<and> es = [a, b] \<longrightarrow>
              children_of s1 c = [a, b] \<and>
              (\<exists>s2. add s1 c [a] = (s2, Inr c) \<and> children_of s2 c = [a, b]))"
proof -
  let ?el1 = "el\<lparr>children := Some (add_loop cs es)\<rparr>"
  let ?s1 = "s\<lparr>heap := (heap s)(c \<mapsto> ?el1)\<rparr>"
  from add_loop_append[of cs es] obtain new where
    new: "add_loop cs es = cs @ new" "distinct new" "set new = set es - set cs" by blast
  have a1: "add s c es = (?s1, Inr c)" using add_children[OF assms] .
  have h1: "heap ?s1 c = Some ?el1" "base (cls ?el1) \<noteq> Control"
    "children ?el1 = Some (add_loop cs es)"
    using assms(2) by simp_all
  have c1: "children_of ?s1 c = cs @ new" using new(1) by (simp add: children_of_def)
  have again: "add ?s1 c xs =
      (?s1\<lparr>heap := (heap ?s1)(c \<mapsto> ?el1\<lparr>children := Some (add_loop (add_loop cs es) xs)\<rparr>)\<rparr>, Inr c)" for xs
    using add_children[OF h1] .
  have same: "?s1\<lparr>heap := (heap ?s1)(c \<mapsto> ?el1\<lparr>children := Some (add_loop cs es)\<rparr>)\<rparr> = ?s1"
    by simp
  have a2: "add ?s1 c es = (?s1, Inr c)"
    using again[of es] same by (simp only: add_loop_idem)
  have d: "distinct es \<longrightarrow> new = filter (\<lambda>e. e \<notin> set cs) es"
    using new(1) add_loop_distinct[of es cs] by auto
  have ex: "cs = [] \<and> a \<noteq> b \<and> es = [a, b] \<longrightarrow>
      children_of ?s1 c = [a, b] \<and> (\<exists>s2. add ?s1 c [a] = (s2, Inr c) \<and> children_of s2 c = [a, b])"
  proof
    assume h: "cs = [] \<and> a \<noteq> b \<and> es = [a, b]"
    then have l: "add_loop cs es = [a, b]" by simp
    have "add_loop (add_loop cs es) [a] = [a, b]" using l by simp
    then have "add ?s1 c [a] = (?s1, Inr c)" using again[of "[a]"] same l by simp
    moreover have "children_of ?s1 c = [a, b]" using l by (simp add: children_of_def)
    ultimately show "children_of ?s1 c = [a, b] \<and>
        (\<exists>s2. add ?s1 c [a] = (s2, Inr c) \<and> children_of s2 c = [a, b])"
      by blast
  qed
  show ?thesis
    apply (rule exI[of _ ?s1])
    apply (rule exI[of _ new])
    using a1 c1 new(2,3) d a2 ex apply (intro conjI)
          apply assumption+
    done
qed

theorem add_appends_unless_present_witness:
  "\<exists>s1 s2. add one_part 0 [1, 2] = (s1, Inr 0) \<and> children_of s1 0 = [1, 2] \<and>
      add s1 0 [1] = (s2, Inr 0) \<and> children_of s2 0 = [1, 2]"
proof -
  have h: "heap one_part 0 = Some empty_part" "base (cls empty_part) \<noteq> Control"
    "children empty_part = Some []"
    by (simp_all add: one_part_def empty_part_def DefaultBlock_def)
  from add_appends_unless_present[OF h, of "[1, 2]" 1 2]
  obtain s1 where s1: "add one_part 0 [1, 2] = (s1, Inr 0)"
    and r: "[] = [] \<and> (1::nat) \<noteq> 2 \<and> [1, 2] = [1, 2::nat] \<longrightarrow>
      children_of s1 0 = [1, 2] \<and> (\<exists>s2. add s1 0 [1] = (s2, Inr 0) \<and> children_of s2 0 = [1, 2])"
    by blast
  from r have "children_of s1 0 = [1, 2] \<and> (\<exists>s2. add s1 0 [1] = (s2, Inr 0) \<and> children_of s2 0 = [1, 2])"
    by simp
  with s1 show ?thesis by blast
qed

section \<open>Initialisers\<close>

text \<open>
  \<^verbatim>\<open>_Element.__init__\<close> fails only when the call site cannot be read: the loop over
  the keys of the property map never meets a missing key.
\<close>

lemma distinct_dict_update:
  "distinct (map fst d) \<Longrightarrow> distinct (map fst (dict_update d kvs))"
  by (induction kvs arbitrary: d) (auto simp: distinct_update)

lemma Element_init_shape:
  "\<exists>l ps err. Element_init self args kwargs fr = (self\<lparr>lcls := Some l, properties := Some ps\<rparr>, err) \<and>
     (case get_code_arguments (cls_DEFAULT_PROPERTY (cls self)) fr of
        Inl e \<Rightarrow> err = Some e
      | Inr ca \<Rightarrow> err = None)"
proof -
  let ?dp = "cls_DEFAULT_PROPERTY (cls self)"
  let ?l = "filter (\<lambda>(key, value). \<not> startswith key ''_'') (f_locals fr)"
  let ?seed = "(case args of a # _ \<Rightarrow> if ?dp \<noteq> [] then [(?dp, Ref a)] else [] | [] \<Rightarrow> [])"
  let ?raw = "dict_update ?seed (map (\<lambda>(k, v). (k, Ref v)) kwargs)"
  let ?self2 = "self\<lparr>lcls := Some ?l, properties := Some ?raw\<rparr>"
  have "distinct (map fst ?seed)" by (cases args) auto
  then have d: "distinct (map fst ?raw)" by (rule distinct_dict_update)
  have dom: "set (map fst ?raw) \<subseteq> dom (map_of ?raw)"
    by (simp add: dom_map_of_conv_image_fst)
  show ?thesis
  proof (cases "get_code_arguments ?dp fr")
    case (Inl e)
    then have "Element_init self args kwargs fr = (?self2, Some e)"
      by (simp add: Element_init_def Let_def)
    with Inl show ?thesis by auto
  next
    case (Inr ca)
    obtain ps' err where loop: "parse_loop ?l ca (map fst ?raw) ?raw = (ps', err)"
      by (cases "parse_loop ?l ca (map fst ?raw) ?raw")
    have "err = None" using parse_loop_no_error[OF d dom, of ?l ca] loop by simp
    then have "Element_init self args kwargs fr = (self\<lparr>lcls := Some ?l, properties := Some ps'\<rparr>, None)"
      using Inr loop by (simp add: Element_init_def Let_def parse_properties_def)
    with Inr show ?thesis by auto
  qed
qed

lemma Block_init_shape:
  "\<exists>l ps err. (case get_code_arguments (cls_DEFAULT_PROPERTY (cls self)) fr of
        Inl e \<Rightarrow> err = Some e \<and>
          Block_init self args kwargs fr = (self\<lparr>lcls := Some l, properties := Some ps\<rparr>, err)
      | Inr ca \<Rightarrow> err = None \<and>
          Block_init self args kwargs fr =
            (self\<lparr>lcls := Some l, properties := Some ps, children := Some []\<rparr>, err))"
proof -
  from Element_init_shape[of self args kwargs fr] obtain l ps err where
    e: "Element_init self args kwargs fr = (self\<lparr>lcls := Some l, properties := Some ps\<rparr>, err)"
    and c: "case get_code_arguments (cls_DEFAULT_PROPERTY (cls self)) fr of
        Inl e \<Rightarrow> err = Some e | Inr ca \<Rightarrow> err = None"
    by blast
  show ?thesis
  proof (cases "get_code_arguments (cls_DEFAULT_PROPERTY (cls self)) fr")
    case (Inl x)
    with e c show ?thesis by (auto simp: Block_init_def)
  next
    case (Inr ca)
    with e c show ?thesis by (auto simp: Block_init_def)
  qed
qed

lemma html_init_no_args:
  "\<exists>self' e. html_init self [] kwargs fr = (self', Some e) \<and>
     ELEMENT_NAME self' = ELEMENT_NAME self \<and> content self' = content self \<and> cls self' = cls self \<and>
     (\<forall>ca. get_code_arguments (cls_DEFAULT_PROPERTY (cls self)) fr = Inr ca \<longrightarrow> e = RuntimeError)"
proof -
  from Block_init_shape[where self = self and fr = fr and args = "[]" and kwargs = kwargs] obtain l ps err where
    b: "case get_code_arguments (cls_DEFAULT_PROPERTY (cls self)) fr of
        Inl e \<Rightarrow> err = Some e \<and>
          Block_init self [] kwargs fr = (self\<lparr>lcls := Some l, properties := Some ps\<rparr>, err)
      | Inr ca \<Rightarrow> err = None \<and>
          Block_init self [] kwargs fr =
            (self\<lparr>lcls := Some l, properties := Some ps, children := Some []\<rparr>, err)"
    by blast
  show ?thesis
  proof (cases "get_code_arguments (cls_DEFAULT_PROPERTY (cls self)) fr")
    case (Inl x)
    with b show ?thesis by (simp add: html_init_def)
  next
    case (Inr ca)
    with b show ?thesis by (simp add: html_init_def)
  qed
qed

lemma html_init_text_node:
  assumes "get_code_arguments (cls_DEFAULT_PROPERTY (cls self)) fr = Inr ca"
  shows "\<exists>l ps. html_init self (a0 # others) kwargs fr =
     (self\<lparr>lcls := Some l, properties := Some ps, children := Some [],
        ELEMENT_NAME := Some (if truthy a0 then Some (Ref a0) else None),
        content := Some (case others of a1 # _ \<Rightarrow> Ref a1 | [] \<Rightarrow> NewStr [])\<rparr>, None)"
proof -
  from Block_init_shape[where self = self and fr = fr and args = "a0 # others" and kwargs = kwargs] assms obtain l ps where
    "Block_init self (a0 # others) kwargs fr =
       (self\<lparr>lcls := Some l, properties := Some ps, children := Some []\<rparr>, None)"
    by auto
  then have "html_init self (a0 # others) kwargs fr =
     (self\<lparr>lcls := Some l, properties := Some ps, children := Some [],
        ELEMENT_NAME := Some (if truthy a0 then Some (Ref a0) else None),
        content := Some (case others of a1 # _ \<Rightarrow> Ref a1 | [] \<Rightarrow> NewStr [])\<rparr>, None)"
    by (simp add: html_init_def)
  then show ?thesis by blast
qed

lemma init_element_shape:
  "\<exists>self' err. (case base (cls self) of
       Block \<Rightarrow> Block_init self args kwargs fr
     | Html \<Rightarrow> html_init self args kwargs fr
     | Control \<Rightarrow> Control_init self args kwargs fr) = (self', err) \<and>
     cls self' = cls self \<and> (children self' = children self \<or> children self' = Some [])"
proof (cases "base (cls self)")
  case Block
  from Block_init_shape[where self = self and fr = fr and args = args and kwargs = kwargs] show ?thesis
    using Block by (cases "get_code_arguments (cls_DEFAULT_PROPERTY (cls self)) fr") auto
next
  case Html
  obtain b err where b: "Block_init self args kwargs fr = (b, err)"
    by (cases "Block_init self args kwargs fr")
  from Block_init_shape[where self = self and fr = fr and args = args and kwargs = kwargs] b
  have s: "cls b = cls self \<and> (children b = children self \<or> children b = Some [])"
    by (cases "get_code_arguments (cls_DEFAULT_PROPERTY (cls self)) fr") auto
  show ?thesis
    using Html b s by (cases err; cases args) (auto simp: html_init_def)
next
  case Control
  from Element_init_shape[of self args kwargs fr] show ?thesis
    using Control by (auto simp: Control_init_def)
qed

section \<open>Allocation, initialisation and the open scope\<close>

lemma wf_stateD:
  assumes "wf_state s" "heap s c = Some el" "children el = Some cs"
  shows "c < next_addr s" "next_addr s \<notin> set cs" "c \<noteq> next_addr s"
    "\<forall>x\<in>set cs. x < next_addr s"
proof -
  show c: "c < next_addr s" using assms(1,2) by (auto simp: wf_state_def)
  have "children_of s c = cs" using assms(2,3) by (simp add: children_of_def)
  then show lt: "\<forall>x\<in>set cs. x < next_addr s" using assms(1) by (auto simp: wf_state_def)
  then show "next_addr s \<notin> set cs" by auto
  show "c \<noteq> next_addr s" using c by simp
qed

lemma init_at:
  assumes "heap s a = Some el"
  shows "\<exists>el' err. init s a args kwargs fr = (s\<lparr>heap := (heap s)(a \<mapsto> el')\<rparr>, err) \<and>
           cls el' = cls el \<and> (children el' = children el \<or> children el' = Some [])"
proof -
  from init_element_shape[of el args kwargs fr] obtain el' err where
    e: "(case base (cls el) of
       Block \<Rightarrow> Block_init el args kwargs fr
     | Html \<Rightarrow> html_init el args kwargs fr
     | Control \<Rightarrow> Control_init el args kwargs fr) = (el', err)"
    and c: "cls el' = cls el \<and> (children el' = children el \<or> children el' = Some [])"
    by blast
  have "init s a args kwargs fr = (s\<lparr>heap := (heap s)(a \<mapsto> el')\<rparr>, err)"
    using assms e by (simp add: init_def)
  with c show ?thesis by blast
qed

lemma new_no_scope:
  "peek (blocks s) = None \<Longrightarrow>
     new s cl = (s\<lparr>heap := (heap s)(next_addr s \<mapsto> blank cl), next_addr := Suc (next_addr s)\<rparr>,
                 Inr (next_addr s))"
  by (simp add: new_def Let_def)

lemma new_in_scope:
  assumes "peek (blocks s) = Some p" "heap s p = Some pel" "base (cls pel) \<noteq> Control"
    and "children pel = Some cs" "p \<noteq> next_addr s" "next_addr s \<notin> set cs"
  shows "new s cl =
     (s\<lparr>heap := (heap s)(next_addr s \<mapsto> blank cl,
                           p \<mapsto> pel\<lparr>children := Some (cs @ [next_addr s])\<rparr>),
        next_addr := Suc (next_addr s)\<rparr>, Inr (next_addr s))"
  using assms by (simp add: new_def Let_def add_def)

lemma add_frame:
  "add s p es = (s', r) \<Longrightarrow>
     blocks s' = blocks s \<and> next_addr s' = next_addr s \<and> (\<forall>a. a \<noteq> p \<longrightarrow> heap s' a = heap s a)"
  by (auto simp: add_def split: option.splits if_splits)

lemma add_Inr_children:
  "add s p [e] = (s', Inr r) \<Longrightarrow> \<exists>el cs. heap s p = Some el \<and> children el = Some cs"
  by (auto simp: add_def split: option.splits if_splits)

lemma new_frame:
  assumes "new s cl = (s1, r)"
  shows "blocks s1 = blocks s" "next_addr s1 = Suc (next_addr s)"
    "a \<noteq> next_addr s \<Longrightarrow> peek (blocks s) \<noteq> Some a \<Longrightarrow> heap s1 a = heap s a"
    "r = Inr b \<Longrightarrow> b = next_addr s \<and> heap s1 b = Some (blank cl)"
proof -
  let ?s0 = "s\<lparr>heap := (heap s)(next_addr s \<mapsto> blank cl), next_addr := Suc (next_addr s)\<rparr>"
  have bn: "blocks s1 = blocks s \<and> next_addr s1 = Suc (next_addr s)"
  proof (cases "peek (blocks s)")
    case None
    with assms show ?thesis by (auto simp: new_no_scope)
  next
    case (Some p)
    obtain s2 r2 where a2: "add ?s0 p [next_addr s] = (s2, r2)"
      by (cases "add ?s0 p [next_addr s]")
    with assms Some have "s1 = s2"
      by (auto simp: new_def Let_def split: sum.splits)
    then show ?thesis using add_frame[OF a2] by simp
  qed
  then show "blocks s1 = blocks s" "next_addr s1 = Suc (next_addr s)" by simp_all
  show "heap s1 a = heap s a" if "a \<noteq> next_addr s" "peek (blocks s) \<noteq> Some a"
  proof (cases "peek (blocks s)")
    case None
    with assms that show ?thesis by (auto simp: new_no_scope)
  next
    case (Some p)
    obtain s2 r2 where a2: "add ?s0 p [next_addr s] = (s2, r2)"
      by (cases "add ?s0 p [next_addr s]")
    with assms Some have "s1 = s2"
      by (auto simp: new_def Let_def split: sum.splits)
    moreover have "heap s2 a = heap ?s0 a" using add_frame[OF a2] that Some by auto
    ultimately show ?thesis using that by simp
  qed
  show "b = next_addr s \<and> heap s1 b = Some (blank cl)" if "r = Inr b"
  proof (cases "peek (blocks s)")
    case None
    with assms that show ?thesis by (auto simp: new_no_scope)
  next
    case (Some p)
    obtain s2 r2 where a2: "add ?s0 p [next_addr s] = (s2, r2)"
      by (cases "add ?s0 p [next_addr s]")
    with assms Some that have eq: "s1 = s2" "b = next_addr s" and ok: "\<exists>x. r2 = Inr x"
      by (auto simp: new_def Let_def split: sum.splits)
    from ok a2 obtain x where "add ?s0 p [next_addr s] = (s2, Inr x)" by auto
    from add_Inr_children[OF this] have "p \<noteq> next_addr s"
      by (auto simp: blank_def)
    then have "heap s2 (next_addr s) = heap ?s0 (next_addr s)"
      using add_frame[OF a2] by auto
    then show ?thesis using eq by simp
  qed
qed

lemma init_frame:
  assumes "init s a args kwargs fr = (s', err)"
  shows "blocks s' = blocks s" "next_addr s' = next_addr s" "b \<noteq> a \<Longrightarrow> heap s' b = heap s b"
  using assms by (auto simp: init_def Let_def split: option.splits prod.splits)

lemma construct_frame:
  assumes "construct s cl args kwargs fr = (s', r)"
  shows "blocks s' = blocks s" "next_addr s' = Suc (next_addr s)"
    "a \<noteq> next_addr s \<Longrightarrow> peek (blocks s) \<noteq> Some a \<Longrightarrow> heap s' a = heap s a"
    "r = Inr b \<Longrightarrow> b = next_addr s"
proof -
  obtain s1 r1 where n: "new s cl = (s1, r1)" by (cases "new s cl")
  note nf = new_frame[OF n]
  have bn: "blocks s' = blocks s \<and> next_addr s' = Suc (next_addr s)"
  proof (cases r1)
    case (Inl e)
    with assms n have "s' = s1" by (simp add: construct_def)
    then show ?thesis using nf(1,2) by simp
  next
    case (Inr obj)
    obtain s2 err where i: "init s1 obj args kwargs fr = (s2, err)"
      by (cases "init s1 obj args kwargs fr")
    with assms n Inr have "s' = s2" by (auto simp: construct_def split: option.splits)
    then show ?thesis using init_frame(1,2)[OF i] nf(1,2) by simp
  qed
  then show "blocks s' = blocks s" "next_addr s' = Suc (next_addr s)" by simp_all
  show "heap s' a = heap s a" if "a \<noteq> next_addr s" "peek (blocks s) \<noteq> Some a"
  proof (cases r1)
    case (Inl e)
    with assms n have "s' = s1" by (simp add: construct_def)
    then show ?thesis using nf(3)[OF that] by simp
  next
    case (Inr obj)
    then have obj: "obj = next_addr s" using nf(4) by simp
    obtain s2 err where i: "init s1 obj args kwargs fr = (s2, err)"
      by (cases "init s1 obj args kwargs fr")
    with assms n Inr have "s' = s2" by (auto simp: construct_def split: option.splits)
    then show ?thesis using init_frame(3)[OF i, of a] nf(3)[OF that] that obj by simp
  qed
  show "b = next_addr s" if "r = Inr b"
  proof (cases r1)
    case (Inl e)
    with assms n that show ?thesis by (simp add: construct_def)
  next
    case (Inr obj)
    obtain s2 err where i: "init s1 obj args kwargs fr = (s2, err)"
      by (cases "init s1 obj args kwargs fr")
    with assms n Inr that have "b = obj" by (auto simp: construct_def split: option.splits)
    then show ?thesis using nf(4)[OF Inr] by simp
  qed
qed

lemma construct_in_scope:
  assumes "peek (blocks s) = Some p" "heap s p = Some pel" "base (cls pel) \<noteq> Control"
    and "children pel = Some cs" "p \<noteq> next_addr s" "next_addr s \<notin> set cs"
  shows "\<exists>s' r el'. construct s cl args kwargs fr = (s', r) \<and>
           heap s' p = Some (pel\<lparr>children := Some (cs @ [next_addr s])\<rparr>) \<and>
           (r = Inr (next_addr s) \<or> (\<exists>e. r = Inl e)) \<and>
           heap s' (next_addr s) = Some el' \<and> cls el' = cl \<and>
           (\<exists>err. (case base cl of
               Block \<Rightarrow> Block_init (blank cl) args kwargs fr
             | Html \<Rightarrow> html_init (blank cl) args kwargs fr
             | Control \<Rightarrow> Control_init (blank cl) args kwargs fr) = (el', err) \<and>
             r = (case err of None \<Rightarrow> Inr (next_addr s) | Some e \<Rightarrow> Inl e))"
proof -
  let ?obj = "next_addr s"
  let ?s1 = "s\<lparr>heap := (heap s)(?obj \<mapsto> blank cl, p \<mapsto> pel\<lparr>children := Some (cs @ [?obj])\<rparr>),
        next_addr := Suc ?obj\<rparr>"
  have n: "new s cl = (?s1, Inr ?obj)" using new_in_scope[OF assms] .
  have h: "heap ?s1 ?obj = Some (blank cl)" using assms(5) by simp
  obtain el' err where e: "(case base cl of
               Block \<Rightarrow> Block_init (blank cl) args kwargs fr
             | Html \<Rightarrow> html_init (blank cl) args kwargs fr
             | Control \<Rightarrow> Control_init (blank cl) args kwargs fr) = (el', err)"
    by (cases "(case base cl of
               Block \<Rightarrow> Block_init (blank cl) args kwargs fr
             | Html \<Rightarrow> html_init (blank cl) args kwargs fr
             | Control \<Rightarrow> Control_init (blank cl) args kwargs fr)")
  have bcl: "cls (blank cl) = cl" by (simp add: blank_def)
  have c: "cls el' = cl" using init_element_shape[of "blank cl" args kwargs fr] e bcl by auto
  have i: "init ?s1 ?obj args kwargs fr = (?s1\<lparr>heap := (heap ?s1)(?obj \<mapsto> el')\<rparr>, err)"
    using h e bcl by (simp add: init_def)
  let ?s2 = "?s1\<lparr>heap := (heap ?s1)(?obj \<mapsto> el')\<rparr>"
  have con: "construct s cl args kwargs fr =
      (?s2, case err of None \<Rightarrow> Inr ?obj | Some e \<Rightarrow> Inl e)"
    using n i by (simp add: construct_def split: option.splits)
  have hp: "heap ?s2 p = Some (pel\<lparr>children := Some (cs @ [?obj])\<rparr>)"
    using assms(5) by simp
  have ho: "heap ?s2 ?obj = Some el'" by simp
  have r: "(case err of None \<Rightarrow> Inr ?obj | Some e \<Rightarrow> Inl e) = Inr ?obj \<or>
      (\<exists>e. (case err of None \<Rightarrow> (Inr ?obj :: py_error + addr) | Some e \<Rightarrow> Inl e) = Inl e)"
    by (cases err) auto
  show ?thesis
    apply (rule exI[of _ ?s2])
    apply (rule exI[of _ "case err of None \<Rightarrow> Inr ?obj | Some e \<Rightarrow> Inl e"])
    apply (rule exI[of _ el'])
    using con hp r ho c e by blast
qed

lemma wf_one_part: "wf_state one_part"
  by (auto simp: wf_state_def one_part_def children_of_def empty_part_def split: if_splits)

text \<open>
  Claim C4. Entering a container and leaving it again restores the stack of open
  containers. An element constructed while the container is the topmost open scope is
  appended to its child list, whether or not its initialiser succeeds; an element
  constructed after the scope is left, with the container no longer on top of the stack,
  is not among its children, and the child list stays what it was.
\<close>

theorem scope_balance:
  assumes wf: "wf_state s" and c: "heap s c = Some el" "base (cls el) \<noteq> Control"
    "children el = Some cs"
  shows "\<exists>s1 s2 r s3. enter s c = (s1, Inr c) \<and> blocks s1 = c # blocks s \<and>
           construct s1 cl args kwargs fr = (s2, r) \<and>
           (r = Inr (next_addr s) \<or> (\<exists>e. r = Inl e)) \<and>
           children_of s2 c = cs @ [next_addr s] \<and>
           exit s2 c = (s3, None) \<and> blocks s3 = blocks s \<and>
           (peek (blocks s) \<noteq> Some c \<longrightarrow>
              (\<exists>s4 r'. construct s3 cl' args' kwargs' fr' = (s4, r') \<and>
                 (\<forall>b. r' = Inr b \<longrightarrow> b = next_addr s3) \<and>
                 children_of s4 c = cs @ [next_addr s] \<and>
                 next_addr s3 \<notin> set (children_of s4 c)))"
proof -
  note w = wf_stateD[OF wf c(1) c(3)]
  let ?s1 = "s\<lparr>blocks := push c (blocks s)\<rparr>"
  have e: "enter s c = (?s1, Inr c)" using c by (simp add: enter_def)
  have b1: "blocks ?s1 = c # blocks s" by (simp add: push_def)
  have pk: "peek (blocks ?s1) = Some c" by (simp add: push_def peek_def)
  have h1: "heap ?s1 c = Some el" "c \<noteq> next_addr ?s1" "next_addr ?s1 \<notin> set cs"
    using c w by simp_all
  from construct_in_scope[OF pk h1(1) c(2) c(3) h1(2) h1(3), of cl args kwargs fr]
  obtain s2 r where
    con: "construct ?s1 cl args kwargs fr = (s2, r)"
    and hp: "heap s2 c = Some (el\<lparr>children := Some (cs @ [next_addr s])\<rparr>)"
    and r: "r = Inr (next_addr s) \<or> (\<exists>e. r = Inl e)"
    by auto
  note f2 = construct_frame[OF con]
  have ch2: "children_of s2 c = cs @ [next_addr s]" using hp by (simp add: children_of_def)
  let ?s3 = "s2\<lparr>blocks := blocks s\<rparr>"
  have b2: "blocks s2 = c # blocks s" using f2(1) b1 by simp
  have x: "exit s2 c = (?s3, None)"
    using hp c(2) b2 by (simp add: exit_def pop_def)
  have n3: "next_addr ?s3 = Suc (next_addr s)" using f2(2) by simp
  have after: "\<exists>s4 r'. construct ?s3 cl' args' kwargs' fr' = (s4, r') \<and>
                 (\<forall>b. r' = Inr b \<longrightarrow> b = next_addr ?s3) \<and>
                 children_of s4 c = cs @ [next_addr s] \<and>
                 next_addr ?s3 \<notin> set (children_of s4 c)"
    if top: "peek (blocks s) \<noteq> Some c"
  proof -
    obtain s4 r' where con4: "construct ?s3 cl' args' kwargs' fr' = (s4, r')"
      by (cases "construct ?s3 cl' args' kwargs' fr'")
    note f4 = construct_frame[OF con4]
    have "c \<noteq> next_addr ?s3" using w(1) n3 by simp
    moreover have "peek (blocks ?s3) \<noteq> Some c" using top by simp
    ultimately have "heap s4 c = heap ?s3 c" by (rule f4(3))
    then have ch4: "children_of s4 c = cs @ [next_addr s]"
      using hp by (simp add: children_of_def)
    have "next_addr ?s3 \<notin> set (cs @ [next_addr s])" using w(4) n3 by auto
    with con4 f4(4) ch4 show ?thesis by auto
  qed
  show ?thesis
    apply (rule exI[of _ ?s1])
    apply (rule exI[of _ s2])
    apply (rule exI[of _ r])
    apply (rule exI[of _ ?s3])
    using e b1 con r ch2 x after by simp
qed

theorem scope_balance_witness:
  "wf_state one_part \<and>
   (\<exists>s1 s2 r s3 s4 r'. enter one_part 0 = (s1, Inr 0) \<and> blocks s1 = [0] \<and>
      construct s1 button [] [] site_x = (s2, r) \<and> children_of s2 0 = [3] \<and>
      exit s2 0 = (s3, None) \<and> blocks s3 = [] \<and>
      construct s3 button [] [] site_x = (s4, r') \<and> children_of s4 0 = [3] \<and>
      next_addr s3 \<notin> set (children_of s4 0))"
proof -
  have h: "heap one_part 0 = Some empty_part" "base (cls empty_part) \<noteq> Control"
    "children empty_part = Some []"
    by (simp_all add: one_part_def empty_part_def DefaultBlock_def)
  have t: "peek (blocks one_part) \<noteq> Some 0" by (simp add: one_part_def peek_def)
  have n: "next_addr one_part = 3" "blocks one_part = []" by (simp_all add: one_part_def)
  from scope_balance[OF wf_one_part h, of button "[]" "[]" site_x button "[]" "[]" site_x] t
  obtain s1 s2 r s3 s4 r' where
    "enter one_part 0 = (s1, Inr 0)" "blocks s1 = 0 # blocks one_part"
    "construct s1 button [] [] site_x = (s2, r)"
    "children_of s2 0 = [] @ [next_addr one_part]"
    "exit s2 0 = (s3, None)" "blocks s3 = blocks one_part"
    "construct s3 button [] [] site_x = (s4, r')"
    "children_of s4 0 = [] @ [next_addr one_part]"
    "next_addr s3 \<notin> set (children_of s4 0)"
    by blast
  then show ?thesis using wf_one_part n by auto
qed

section \<open>Constructing raw markup\<close>

lemma html_class: "base html = Html" "cls_DEFAULT_PROPERTY html = []" "cls (blank html) = html"
  by (simp_all add: html_def blank_def)

lemma construct_html_after_new:
  assumes n: "new s html = (s1, Inr obj)"
  shows "\<exists>el err. html_init (blank html) args kwargs fr = (el, err) \<and>
           construct s html args kwargs fr =
             (s1\<lparr>heap := (heap s1)(obj \<mapsto> el)\<rparr>,
              case err of None \<Rightarrow> Inr obj | Some e \<Rightarrow> Inl e)"
proof -
  have h: "heap s1 obj = Some (blank html)" using new_frame(4)[OF n refl] by (rule conjunct2)
  obtain el err where e: "html_init (blank html) args kwargs fr = (el, err)"
    by (cases "html_init (blank html) args kwargs fr")
  have "init s1 obj args kwargs fr = (s1\<lparr>heap := (heap s1)(obj \<mapsto> el)\<rparr>, err)"
    using h e by (simp add: init_def html_class)
  then have "construct s html args kwargs fr =
      (s1\<lparr>heap := (heap s1)(obj \<mapsto> el)\<rparr>, case err of None \<Rightarrow> Inr obj | Some e \<Rightarrow> Inl e)"
    using n by (simp add: construct_def split: option.splits)
  with e show ?thesis by blast
qed

text \<open>
  Claim C9. Constructing an \<^verbatim>\<open>html\<close> element with no positional argument never
  returns an element: the constructor ends in an error, which is the \<^verbatim>\<open>RuntimeError\<close>
  of \<^verbatim>\<open>html.__init__\<close> whenever allocation and the reading of the call site succeed.
  With a falsy first argument (empty or \<^verbatim>\<open>None\<close>) the construction succeeds and gives
  a text node: the tag name is \<^verbatim>\<open>None\<close> and the element renders as its content.
\<close>

theorem html_requires_tag:
  "(\<exists>s' e. construct s html [] kwargs fr = (s', Inl e)) \<and>
   (new s html = (s1, Inr obj) \<and> get_code_arguments [] fr = Inr ca
      \<longrightarrow> (\<exists>s'. construct s html [] kwargs fr = (s', Inl RuntimeError))) \<and>
   (new s html = (s1, Inr obj) \<and> get_code_arguments [] fr = Inr ca \<and> \<not> truthy a0
      \<longrightarrow> (\<exists>s' el. construct s html (a0 # others) kwargs fr = (s', Inr obj) \<and>
             heap s' obj = Some el \<and> ELEMENT_NAME el = Some None \<and>
             content el = Some (case others of a1 # _ \<Rightarrow> Ref a1 | [] \<Rightarrow> NewStr []) \<and>
             render (Suc n) f (heap s') obj =
               Inr (case others of a1 # _ \<Rightarrow> Ref a1 | [] \<Rightarrow> NewStr [])))"
proof (intro conjI impI)
  show "\<exists>s' e. construct s html [] kwargs fr = (s', Inl e)"
  proof -
    obtain s1' r1 where n: "new s html = (s1', r1)" by (cases "new s html")
    show ?thesis
    proof (cases r1)
      case (Inl e)
      with n show ?thesis by (simp add: construct_def)
    next
      case (Inr o')
      from construct_html_after_new[OF n[unfolded Inr], of "[]" kwargs fr]
        html_init_no_args[of "blank html" kwargs fr]
      show ?thesis by auto
    qed
  qed
next
  assume a: "new s html = (s1, Inr obj) \<and> get_code_arguments [] fr = Inr ca"
  from html_init_no_args[of "blank html" kwargs fr] a
  obtain el where "html_init (blank html) [] kwargs fr = (el, Some RuntimeError)"
    by (auto simp: html_class)
  with construct_html_after_new[of s s1 obj "[]" kwargs fr] a
  show "\<exists>s'. construct s html [] kwargs fr = (s', Inl RuntimeError)" by auto
next
  assume a: "new s html = (s1, Inr obj) \<and> get_code_arguments [] fr = Inr ca \<and> \<not> truthy a0"
  let ?c = "case others of a1 # _ \<Rightarrow> Ref a1 | [] \<Rightarrow> NewStr []"
  from html_init_text_node[of "blank html" fr ca a0 others kwargs] a
  obtain l ps where i: "html_init (blank html) (a0 # others) kwargs fr =
     ((blank html)\<lparr>lcls := Some l, properties := Some ps, children := Some [],
        ELEMENT_NAME := Some None, content := Some ?c\<rparr>, None)"
    by (auto simp: html_class)
  let ?el = "(blank html)\<lparr>lcls := Some l, properties := Some ps, children := Some [],
        ELEMENT_NAME := Some None, content := Some ?c\<rparr>"
  let ?s' = "s1\<lparr>heap := (heap s1)(obj \<mapsto> ?el)\<rparr>"
  have con: "construct s html (a0 # others) kwargs fr = (?s', Inr obj)"
    using construct_html_after_new[of s s1 obj "a0 # others" kwargs fr] a i by auto
  have h: "heap ?s' obj = Some ?el" by simp
  have "render (Suc n) f (heap ?s') obj = html_render (render n f (heap ?s')) ?el"
    by (simp add: html_class)
  also have "\<dots> = Inr ?c"
    by (simp add: html_render_def self_ELEMENT_NAME_def)
  finally have r: "render (Suc n) f (heap ?s') obj = Inr ?c" .
  show "\<exists>s' el. construct s html (a0 # others) kwargs fr = (s', Inr obj) \<and>
             heap s' obj = Some el \<and> ELEMENT_NAME el = Some None \<and>
             content el = Some ?c \<and> render (Suc n) f (heap s') obj = Inr ?c"
    apply (rule exI[of _ ?s'])
    apply (rule exI[of _ ?el])
    using con h r by simp
qed

lemma new_init_state:
  "new init_state html = (init_state\<lparr>heap := Map.empty(0 \<mapsto> blank html), next_addr := Suc 0\<rparr>, Inr 0)"
  using new_no_scope[of init_state html] by (simp add: init_state_def peek_def)

lemma site_text_arguments: "get_code_arguments [] site_text = Inr Map.empty"
  by (simp add: get_code_arguments_def site_text_def)

theorem html_requires_tag_witness:
  "(\<exists>s'. construct init_state html [] [] site_text = (s', Inl RuntimeError)) \<and>
   \<not> truthy none_obj \<and>
   (\<exists>s' el. construct init_state html [none_obj, text_obj] [] site_text = (s', Inr 0) \<and>
      heap s' 0 = Some el \<and> ELEMENT_NAME el = Some None \<and> content el = Some (Ref text_obj) \<and>
      render 1 no_factory (heap s') 0 = Inr (Ref text_obj))"
proof -
  have t: "\<not> truthy none_obj" by (simp add: none_obj_def)
  have 1: "\<exists>s'. construct init_state html [] [] site_text = (s', Inl RuntimeError)"
    using html_requires_tag[where s = init_state and kwargs = "[]" and fr = site_text
        and obj = 0 and ca = Map.empty] new_init_state site_text_arguments by blast
  have 2: "\<exists>s' el. construct init_state html [none_obj, text_obj] [] site_text = (s', Inr 0) \<and>
      heap s' 0 = Some el \<and> ELEMENT_NAME el = Some None \<and> content el = Some (Ref text_obj) \<and>
      render (Suc 0) no_factory (heap s') 0 = Inr (Ref text_obj)"
    using html_requires_tag[where s = init_state and kwargs = "[]" and fr = site_text
        and obj = 0 and ca = Map.empty and ?a0.0 = none_obj and others = "[text_obj]"
        and n = 0 and f = no_factory] new_init_state site_text_arguments t
    by simp
  from t 1 2 show ?thesis by simp
qed

lemma wf_open_part: "wf_state open_part"
  by (auto simp: wf_state_def open_part_def children_of_def empty_part_def split: if_splits)

text \<open>
  Claim C10. While a container is the open scope, \<^verbatim>\<open>__new__\<close> appends the new object
  to the container's child list at allocation, when the object has no attribute yet. When
  the initialiser then fails, as \<^verbatim>\<open>html.__init__\<close> does without a tag argument, the
  constructor raises but the object stays in the child list, without tag name and content.
\<close>

theorem failed_construction_stays_registered:
  assumes wf: "wf_state s" and top: "peek (blocks s) = Some p"
    and p: "heap s p = Some pel" "base (cls pel) \<noteq> Control" "children pel = Some cs"
  shows "(\<exists>s1. new s cl = (s1, Inr (next_addr s)) \<and>
            children_of s1 p = cs @ [next_addr s] \<and>
            heap s1 (next_addr s) = Some (blank cl)) \<and>
         (\<exists>s2 e el. construct s html [] kwargs fr = (s2, Inl e) \<and>
            children_of s2 p = cs @ [next_addr s] \<and> next_addr s \<notin> set cs \<and>
            heap s2 (next_addr s) = Some el \<and> ELEMENT_NAME el = None \<and> content el = None \<and>
            (\<forall>ca. get_code_arguments [] fr = Inr ca \<longrightarrow> e = RuntimeError))"
proof
  note w = wf_stateD[OF wf p(1) p(3)]
  let ?obj = "next_addr s"
  let ?s1 = "s\<lparr>heap := (heap s)(?obj \<mapsto> blank cl, p \<mapsto> pel\<lparr>children := Some (cs @ [?obj])\<rparr>),
        next_addr := Suc ?obj\<rparr>"
  have n: "new s cl = (?s1, Inr ?obj)"
    using new_in_scope[OF top p w(3) w(2)] .
  have "children_of ?s1 p = cs @ [?obj]" by (simp add: children_of_def)
  moreover have "heap ?s1 ?obj = Some (blank cl)" using w(3) by simp
  ultimately show "\<exists>s1. new s cl = (s1, Inr ?obj) \<and> children_of s1 p = cs @ [?obj] \<and>
      heap s1 ?obj = Some (blank cl)"
    using n by blast
next
  note w = wf_stateD[OF wf p(1) p(3)]
  from construct_in_scope[OF top p w(3) w(2), of html "[]" kwargs fr]
  obtain s2 r el err where
    con: "construct s html [] kwargs fr = (s2, r)"
    and hp: "heap s2 p = Some (pel\<lparr>children := Some (cs @ [next_addr s])\<rparr>)"
    and ho: "heap s2 (next_addr s) = Some el"
    and i: "html_init (blank html) [] kwargs fr = (el, err)"
    and r: "r = (case err of None \<Rightarrow> Inr (next_addr s) | Some e \<Rightarrow> Inl e)"
    by (auto simp: html_class)
  from html_init_no_args[of "blank html" kwargs fr] i obtain e where
    e: "err = Some e" "ELEMENT_NAME el = None" "content el = None"
      "\<forall>ca. get_code_arguments [] fr = Inr ca \<longrightarrow> e = RuntimeError"
    by (auto simp: html_class blank_def)
  have "children_of s2 p = cs @ [next_addr s]" using hp by (simp add: children_of_def)
  moreover have "construct s html [] kwargs fr = (s2, Inl e)" using con r e(1) by simp
  ultimately show "\<exists>s2 e el. construct s html [] kwargs fr = (s2, Inl e) \<and>
            children_of s2 p = cs @ [next_addr s] \<and> next_addr s \<notin> set cs \<and>
            heap s2 (next_addr s) = Some el \<and> ELEMENT_NAME el = None \<and> content el = None \<and>
            (\<forall>ca. get_code_arguments [] fr = Inr ca \<longrightarrow> e = RuntimeError)"
    using w(2) ho e(2,3,4) by blast
qed

theorem failed_construction_stays_registered_witness:
  "wf_state open_part \<and> peek (blocks open_part) = Some 0 \<and> children_of open_part 0 = [] \<and>
   (\<exists>s2 el. construct open_part html [] [] site_text = (s2, Inl RuntimeError) \<and>
      children_of s2 0 = [1] \<and> heap s2 1 = Some el \<and> ELEMENT_NAME el = None \<and> content el = None)"
proof -
  have top: "peek (blocks open_part) = Some 0" by (simp add: open_part_def peek_def)
  have h: "heap open_part 0 = Some empty_part" "base (cls empty_part) \<noteq> Control"
    "children empty_part = Some []"
    by (simp_all add: open_part_def empty_part_def DefaultBlock_def)
  have n: "next_addr open_part = 1" by (simp add: open_part_def)
  have c0: "children_of open_part 0 = []" using h by (simp add: children_of_def)
  from failed_construction_stays_registered[OF wf_open_part top h, of _ "[]" site_text]
  obtain s2 e el where
    "construct open_part html [] [] site_text = (s2, Inl e)"
    "children_of s2 0 = [] @ [next_addr open_part]"
    "heap s2 (next_addr open_part) = Some el" "ELEMENT_NAME el = None" "content el = None"
    "\<forall>ca. get_code_arguments [] site_text = Inr ca \<longrightarrow> e = RuntimeError"
    by blast
  then show ?thesis using wf_open_part top c0 n site_text_arguments by auto
qed

section \<open>Every reachable store is well-formed\<close>

text \<open>
  The hypothesis \<open>wf_state\<close> of the theorems about scopes holds in the initial store and
  is kept by construction, by adding allocated elements, and by entering and leaving a
  scope.
\<close>

lemma wf_init_state: "wf_state init_state"
  by (simp add: wf_state_def init_state_def children_of_def)

lemma wf_state_heap_update:
  assumes wf: "wf_state s" and a: "a < n" and n: "next_addr s \<le> n"
    and cs: "\<forall>x\<in>set (case children el of None \<Rightarrow> [] | Some cs \<Rightarrow> cs). x < n"
  shows "wf_state (s\<lparr>heap := (heap s)(a \<mapsto> el), next_addr := n\<rparr>)"
  unfolding wf_state_def
proof (intro conjI allI impI ballI)
  fix b assume "b \<in> dom (heap (s\<lparr>heap := (heap s)(a \<mapsto> el), next_addr := n\<rparr>))"
  then have "b = a \<or> b \<in> dom (heap s)" by (auto split: if_splits)
  then show "b < next_addr (s\<lparr>heap := (heap s)(a \<mapsto> el), next_addr := n\<rparr>)"
    using wf a n by (auto simp: wf_state_def)
next
  fix b c assume c: "c \<in> set (children_of (s\<lparr>heap := (heap s)(a \<mapsto> el), next_addr := n\<rparr>) b)"
  show "c < next_addr (s\<lparr>heap := (heap s)(a \<mapsto> el), next_addr := n\<rparr>)"
  proof (cases "b = a")
    case True
    with c cs show ?thesis by (simp add: children_of_def)
  next
    case False
    with c have "c \<in> set (children_of s b)" by (simp add: children_of_def)
    then have "c < next_addr s" using wf by (auto simp: wf_state_def)
    then show ?thesis using n by simp
  qed
qed

lemma wf_state_heap_update_same:
  assumes wf: "wf_state s" and a: "a < next_addr s"
    and cs: "\<forall>x\<in>set (case children el of None \<Rightarrow> [] | Some cs \<Rightarrow> cs). x < next_addr s"
  shows "wf_state (s\<lparr>heap := (heap s)(a \<mapsto> el)\<rparr>)"
proof -
  have "wf_state (s\<lparr>heap := (heap s)(a \<mapsto> el), next_addr := next_addr s\<rparr>)"
    using wf a cs by (intro wf_state_heap_update) simp_all
  then show ?thesis by simp
qed

lemma wf_state_add:
  assumes wf: "wf_state s" and es: "\<forall>e\<in>set es. e < next_addr s"
  shows "wf_state (fst (add s p es))"
proof (cases "heap s p")
  case None
  then show ?thesis using wf by (simp add: add_def)
next
  case (Some el)
  show ?thesis
  proof (cases "base (cls el) = Control \<or> es = [] \<or> children el = None")
    case True
    then show ?thesis using wf Some by (auto simp: add_def)
  next
    case False
    then obtain cs where cs: "children el = Some cs" by auto
    have a: "add s p es = (s\<lparr>heap := (heap s)(p \<mapsto> el\<lparr>children := Some (add_loop cs es)\<rparr>)\<rparr>, Inr p)"
      using False Some cs by (simp add: add_def)
    have p: "p < next_addr s" using wf Some by (auto simp: wf_state_def)
    have "children_of s p = cs" using Some cs by (simp add: children_of_def)
    then have "\<forall>x\<in>set cs. x < next_addr s" using wf by (auto simp: wf_state_def)
    then have "\<forall>x\<in>set (add_loop cs es). x < next_addr s"
      using es by (auto simp: set_add_loop)
    then have "wf_state (s\<lparr>heap := (heap s)(p \<mapsto> el\<lparr>children := Some (add_loop cs es)\<rparr>)\<rparr>)"
      using wf p by (intro wf_state_heap_update_same) simp_all
    then show ?thesis using a by simp
  qed
qed

lemma wf_state_new:
  assumes wf: "wf_state s"
  shows "wf_state (fst (new s cl))"
proof -
  let ?s0 = "s\<lparr>heap := (heap s)(next_addr s \<mapsto> blank cl), next_addr := Suc (next_addr s)\<rparr>"
  have w0: "wf_state ?s0"
    using wf by (intro wf_state_heap_update) (simp_all add: blank_def)
  show ?thesis
  proof (cases "peek (blocks s)")
    case None
    then show ?thesis using w0 by (simp add: new_no_scope)
  next
    case (Some p)
    have "wf_state (fst (add ?s0 p [next_addr s]))"
      using w0 by (intro wf_state_add) simp_all
    moreover have "fst (new s cl) = fst (add ?s0 p [next_addr s])"
      using Some by (simp add: new_def Let_def split: prod.splits sum.splits)
    ultimately show ?thesis by simp
  qed
qed

lemma wf_state_init:
  assumes wf: "wf_state s"
  shows "wf_state (fst (init s a args kwargs fr))"
proof (cases "heap s a")
  case None
  then show ?thesis using wf by (simp add: init_def)
next
  case (Some el)
  from init_at[OF Some, of args kwargs fr] obtain el' err where
    i: "init s a args kwargs fr = (s\<lparr>heap := (heap s)(a \<mapsto> el')\<rparr>, err)"
    and c: "children el' = children el \<or> children el' = Some []"
    by blast
  have a: "a < next_addr s" using wf Some by (auto simp: wf_state_def)
  have "\<forall>x\<in>set (children_of s a). x < next_addr s" using wf by (auto simp: wf_state_def)
  then have old: "\<forall>x\<in>set (case children el of None \<Rightarrow> [] | Some cs \<Rightarrow> cs). x < next_addr s"
    using Some by (simp add: children_of_def)
  have "\<forall>x\<in>set (case children el' of None \<Rightarrow> [] | Some cs \<Rightarrow> cs). x < next_addr s"
    using c
  proof
    assume "children el' = children el"
    then show ?thesis using old by simp
  next
    assume "children el' = Some []"
    then show ?thesis by simp
  qed
  then have "wf_state (s\<lparr>heap := (heap s)(a \<mapsto> el')\<rparr>)"
    using wf a by (intro wf_state_heap_update_same)
  then show ?thesis using i by simp
qed

lemma wf_state_construct:
  assumes "wf_state s"
  shows "wf_state (fst (construct s cl args kwargs fr))"
proof -
  obtain s1 r1 where n: "new s cl = (s1, r1)" by (cases "new s cl")
  have w1: "wf_state s1" using wf_state_new[OF assms, of cl] n by simp
  show ?thesis
  proof (cases r1)
    case (Inl e)
    then show ?thesis using n w1 by (simp add: construct_def)
  next
    case (Inr obj)
    have "fst (construct s cl args kwargs fr) = fst (init s1 obj args kwargs fr)"
      using n Inr by (simp add: construct_def split: prod.splits option.splits)
    then show ?thesis using wf_state_init[OF w1] by simp
  qed
qed

lemma wf_state_enter: "wf_state s \<Longrightarrow> wf_state (fst (enter s c))"
  by (auto simp: enter_def wf_state_def children_of_def split: option.splits)

lemma wf_state_exit: "wf_state s \<Longrightarrow> wf_state (fst (exit s c))"
  by (auto simp: exit_def wf_state_def children_of_def split: option.splits sum.splits)

section \<open>Stripping white space\<close>

text \<open>
  \<open>strip\<close> removes white space at both ends and nothing else: what is left begins and
  ends with a character that is not white space.
\<close>

lemma dropWhile_space_split:
  "\<exists>a. s = a @ dropWhile py_space s \<and> (\<forall>c\<in>set a. py_space c)"
  by (rule exI[of _ "takeWhile py_space s"]) (auto dest: set_takeWhileD)

lemma strip_spec:
  "\<exists>a b. s = a @ strip s @ b \<and> (\<forall>c\<in>set a. py_space c) \<and> (\<forall>c\<in>set b. py_space c) \<and>
     (strip s = [] \<or> (\<not> py_space (hd (strip s)) \<and> \<not> py_space (last (strip s))))"
proof -
  let ?m = "dropWhile py_space s"
  obtain a where a: "s = a @ ?m" "\<forall>c\<in>set a. py_space c"
    using dropWhile_space_split[of s] by blast
  obtain b' where b': "rev ?m = b' @ dropWhile py_space (rev ?m)" "\<forall>c\<in>set b'. py_space c"
    using dropWhile_space_split[of "rev ?m"] by blast
  have st: "strip s = rev (dropWhile py_space (rev ?m))" by (simp add: strip_def)
  have "?m = rev (rev ?m)" by simp
  also have "\<dots> = rev (b' @ dropWhile py_space (rev ?m))" using b'(1) by simp
  also have "\<dots> = strip s @ rev b'" using st by simp
  finally have m: "?m = strip s @ rev b'" .
  have s: "s = a @ strip s @ rev b'" using a(1) m by simp
  have ends: "strip s = [] \<or> (\<not> py_space (hd (strip s)) \<and> \<not> py_space (last (strip s)))"
  proof (cases "strip s = []")
    case True
    then show ?thesis by simp
  next
    case False
    then have ne: "dropWhile py_space (rev ?m) \<noteq> []" using st by simp
    then have "\<not> py_space (hd (dropWhile py_space (rev ?m)))" by (rule hd_dropWhile)
    then have l: "\<not> py_space (last (strip s))" using st ne by (simp add: last_rev)
    have "?m \<noteq> []" using m False by auto
    then have "\<not> py_space (hd ?m)" by (rule hd_dropWhile)
    then have "\<not> py_space (hd (strip s))" using m False by (metis hd_append2)
    with l show ?thesis by simp
  qed
  from s a(2) b'(2) ends show ?thesis
    by (intro exI[of _ a] exI[of _ "rev b'"]) simp
qed


section \<open>Bindings\<close>










section \<open>Rendering a container\<close>

text \<open>
  \<^verbatim>\<open>_Block._render\<close>: the opening fragment of the factory, the renderings of the
  children with a line break between neighbours, and the closing tag. The first child that
  fails ends the rendering with its error; a child that renders to something that is not a
  string ends it with \<^verbatim>\<open>TypeError\<close>.
\<close>

lemma sequence_first_error: "sequence (map Inr vs @ Inl e # rs) = Inl e"
  by (induction vs) auto

lemma render_children_error:
  assumes "children self = Some (pre @ c # post)"
    and "map child_render pre = map Inr vs" and "child_render c = Inl e"
  shows "render_children child_render self = Inl e"
  using assms by (simp add: render_children_def sequence_first_error)

lemma render_children_not_str:
  assumes "children self = Some cs" and "map child_render cs = map Inr vs"
    and "\<not> list_all is_str vs"
  shows "render_children child_render self = Inl TypeError"
  using assms by (simp add: render_children_def sequence_Inr join_rendered_def)

lemma Block_render_wraps:
  assumes "h a = Some self" and "base (cls self) = Block" and "properties self = Some ps"
    and "create_element (cls_ELEMENT_NAME (cls self)) ps = Inr (el0, el1)"
    and "children self = Some cs" and "map (render n create_element h) cs = map Inr vs"
    and "list_all is_str vs"
  shows "render (Suc n) create_element h a =
     Inr (NewStr (el0 @
       (case vs of [] \<Rightarrow> [] | v # rest \<Rightarrow> py_str v @ concat (map (\<lambda>w. CHR 0x0A # py_str w) rest))
       @ ''</'' @ el1 @ ''>''))"
proof -
  have j: "join [newline] (map py_str vs) =
      (case vs of [] \<Rightarrow> [] | v # rest \<Rightarrow> py_str v @ concat (map (\<lambda>w. CHR 0x0A # py_str w) rest))"
    by (cases vs) (simp_all add: join_concat newline_def comp_def)
  have "render_children (render n create_element h) self = Inr (join [newline] (map py_str vs))"
    using assms(5,6,7) by (simp add: render_children_def sequence_Inr join_rendered_def)
  then have "render (Suc n) create_element h a =
      Inr (NewStr (el0 @ join [newline] (map py_str vs) @ ''</'' @ el1 @ ''>''))"
    using assms(1-4) by (simp add: Block_render_def)
  then show ?thesis by (simp only: j)
qed

section \<open>Controls are no scopes\<close>

text \<open>
  Entering or leaving a control raises \<^verbatim>\<open>RuntimeError\<close> and leaves the stack alone; a
  control has no \<^verbatim>\<open>add\<close>.
\<close>

lemma control_is_no_scope:
  assumes "heap s a = Some self" and "base (cls self) = Control"
  shows "enter s a = (s, Inl RuntimeError)" and "exit s a = (s, Some RuntimeError)"
    and "add s a es = (s, Inl AttributeError)"
  using assms by (simp_all add: enter_def exit_def add_def)

section \<open>Reading the call site\<close>

text \<open>
  A line that does not parse and an argument that is neither a name nor a literal end the
  construction with an error; the first positional argument is recorded under the default
  property when there is one; local variables whose names begin with an underscore are
  left out of the snapshot.
\<close>

lemma source_recovery_errors:
  "get_code_arguments dp \<lparr>f_locals = l, code_context = Unparsable # ls\<rparr> = Inl SyntaxError"
  "get_code_arguments dp \<lparr>f_locals = l, code_context = [keyword_call key NonLiteral]\<rparr> = Inl ValueError"
  by (simp_all add: get_code_arguments_def keyword_call_def)

lemma source_recovery_positional:
  "get_code_arguments ''label''
     \<lparr>f_locals = l, code_context = [Parsed [\<lparr>call_args = [Name ''x'', Name ''z''], call_keywords = []\<rparr>]]\<rparr>
   = Inr (Map.empty(Some ''label'' \<mapsto> NewStr ''x''))"
  "get_code_arguments []
     \<lparr>f_locals = l, code_context = [Parsed [\<lparr>call_args = [Name ''x'', Name ''z''], call_keywords = []\<rparr>]]\<rparr>
   = Inr Map.empty"
  "get_code_arguments ''label''
     \<lparr>f_locals = l, code_context = [Parsed [\<lparr>call_args = [NonLiteral], call_keywords = []\<rparr>]]\<rparr>
   = Inl ValueError"
  by (simp_all add: get_code_arguments_def)

lemma snapshot_skips_underscore:
  "\<exists>el err. Element_init (blank button) [] []
       \<lparr>f_locals = [(''_x'', five), (''x_'', five)], code_context = [bare_call]\<rparr> = (el, err) \<and>
     lcls el = Some [(''x_'', five)]"
  by (simp add: Element_init_def parse_properties_def get_code_arguments_def Let_def blank_def
      button_def bare_call_def)

end
